theory Spec2Isabelle
  imports Complex_Main
begin

section \<open>Reverse-mode automatic differentiation: the \<open>Var\<close> class of revad.py\<close>

subsection \<open>Objects and the heap\<close>

text \<open>
  A \<open>Var\<close> object has three attributes: \<open>value\<close>, the list \<open>children\<close> of
  pairs (weight, consumer) and \<open>grad_value\<close>, which is \<open>None\<close> until a gradient is
  cached. Objects are shared by reference and mutated in place, so the model keeps an
  explicit heap: the list of all objects in creation order. A reference is the index of
  the object in that list. Every function that mutates an object takes the heap and
  returns the new one.

  The numbers are of an arbitrary type \<open>'a\<close> with the operations the code uses
  (\<open>0\<close>, \<open>1\<close>, \<open>+\<close>, \<open>*\<close>); no law of arithmetic is assumed unless a theorem says so.
  The field \<open>value\<close> is written \<open>value'\<close>.
\<close>

record 'a var =
  value' :: 'a
  children :: "('a \<times> nat) list"
  grad_value :: "'a option"

type_synonym 'a heap = "'a var list"

text \<open>\<open>Var.__init__\<close>: a new object, referenced by the next free index.\<close>

definition Var :: "'a \<Rightarrow> 'a heap \<Rightarrow> nat \<times> 'a heap" where
  "Var v h = (length h, h @ [\<lparr>value' = v, children = [], grad_value = None\<rparr>])"

text \<open>\<open>obj.children.append(e)\<close> and \<open>obj.grad_value = g\<close>, on the object at index \<open>i\<close>.\<close>

definition append_child :: "nat \<Rightarrow> 'a \<times> nat \<Rightarrow> 'a heap \<Rightarrow> 'a heap" where
  "append_child i e h = h[i := (h ! i)\<lparr>children := children (h ! i) @ [e]\<rparr>]"

definition set_grad_value :: "nat \<Rightarrow> 'a \<Rightarrow> 'a heap \<Rightarrow> 'a heap" where
  "set_grad_value i g h = h[i := (h ! i)\<lparr>grad_value := Some g\<rparr>]"

subsection \<open>The forward operations\<close>

text \<open>\<open>Var.__add__\<close>, \<open>Var.__mul__\<close> and \<open>sin\<close>. The library functions \<open>math.sin\<close> and
  \<open>math.cos\<close> are parameters of \<open>sin_Var\<close>; they may raise an exception instead of
  returning a value, and \<open>sin\<close> then raises it too. When \<open>math.sin\<close> raises, no node has
  been made and no edge appended. When \<open>math.cos\<close> raises, the node made is referenced by
  nothing and no edge has been appended. In both cases the graph is the one before the
  call, so an exception carries no heap.\<close>

datatype error = ValueError

definition Var_add :: "nat \<Rightarrow> nat \<Rightarrow> 'a::{one,plus} heap \<Rightarrow> nat \<times> 'a heap" where
  "Var_add self other h =
     (let (z, h1) = Var (value' (h ! self) + value' (h ! other)) h;
          h2 = append_child self (1, z) h1;
          h3 = append_child other (1, z) h2
      in (z, h3))"

definition Var_mul :: "nat \<Rightarrow> nat \<Rightarrow> 'a::times heap \<Rightarrow> nat \<times> 'a heap" where
  "Var_mul self other h =
     (let (z, h1) = Var (value' (h ! self) * value' (h ! other)) h;
          h2 = append_child self (value' (h1 ! other), z) h1;
          h3 = append_child other (value' (h2 ! self), z) h2
      in (z, h3))"

definition sin_Var ::
  "('a \<Rightarrow> error + 'a) \<Rightarrow> ('a \<Rightarrow> error + 'a) \<Rightarrow> nat \<Rightarrow> 'a heap \<Rightarrow> error + nat \<times> 'a heap" where
  "sin_Var math_sin math_cos x h =
     (case math_sin (value' (h ! x)) of
        Inl e \<Rightarrow> Inl e
      | Inr s \<Rightarrow>
          (let (z, h1) = Var s h
           in case math_cos (value' (h1 ! x)) of
                Inl e \<Rightarrow> Inl e
              | Inr c \<Rightarrow> Inr (z, append_child x (c, z) h1)))"

text \<open>The script's \<open>z.grad_value = 1.0\<close>: seeding the root.\<close>

definition seed_root :: "nat \<Rightarrow> 'a::one heap \<Rightarrow> 'a heap" where
  "seed_root z h = set_grad_value z 1 h"

subsection \<open>The reverse pass\<close>

text \<open>
  \<open>sum(weight * var.grad() for weight, var in self.children)\<close>: Python's \<open>sum\<close> starts
  from 0 and adds the items from left to right; each item calls \<open>grad\<close> on a consumer,
  which may write caches, so the heap is threaded through the loop. The recursive call is
  the parameter \<open>g\<close>.
\<close>

fun sum_gen ::
  "(nat \<Rightarrow> 'a heap \<Rightarrow> ('a \<times> 'a heap) option) \<Rightarrow> ('a \<times> nat) list \<Rightarrow> 'a::{plus,times} \<Rightarrow> 'a heap
     \<Rightarrow> ('a \<times> 'a heap) option" where
  "sum_gen g [] acc h = Some (acc, h)"
| "sum_gen g ((weight, var) # rest) acc h =
     (case g var h of
        None \<Rightarrow> None
      | Some (gv, h') \<Rightarrow> sum_gen g rest (acc + weight * gv) h')"

text \<open>
  \<open>Var.grad\<close>. The first argument bounds the depth of nested calls: a call that would
  nest deeper does not return (in Python, the recursion limit), which is the value
  \<open>None\<close>. A reference outside the heap cannot exist in Python; it is \<open>None\<close> too.
\<close>

fun grad :: "nat \<Rightarrow> nat \<Rightarrow> 'a::{zero,plus,times} heap \<Rightarrow> ('a \<times> 'a heap) option" where
  "grad 0 self h = None"
| "grad (Suc depth) self h =
     (if length h \<le> self then None
      else case grad_value (h ! self) of
        Some g \<Rightarrow> Some (g, h)
      | None \<Rightarrow>
          (case sum_gen (grad depth) (children (h ! self)) 0 h of
             None \<Rightarrow> None
           | Some (s, h') \<Rightarrow> Some (s, set_grad_value self s h')))"

subsection \<open>Python floats\<close>

text \<open>
  The values of the script are Python floats (IEEE-754 binary64). A finite float is taken
  as the real number it denotes; the two infinities and NaN are values of their own, with
  the IEEE-754 rules of \<open>+\<close> and \<open>*\<close> on them: NaN propagates, \<open>inf - inf\<close> and \<open>0 * inf\<close>
  are NaN. A sum or product of finite floats overflows to an infinity when its magnitude
  reaches \<open>2^1024 - 2^970\<close>, the least real that rounding to nearest takes beyond the
  largest float \<open>2^1024 - 2^971\<close>; Python raises no exception there. Below that bound the
  exact real result is kept: the rounding of a result to 53 bits (and so the underflow of
  a tiny product to 0) is not modelled. Python's integer \<open>0\<close>, the start value of \<open>sum\<close>, is
  converted to the float zero by both operations.
\<close>

datatype pyfloat = Fin real | PInf | NInf | NaN

definition overflow_threshold :: real where
  "overflow_threshold = 2 ^ 1024 - 2 ^ 970"

definition finite_result :: "real \<Rightarrow> pyfloat" where
  "finite_result r =
     (if overflow_threshold \<le> r then PInf
      else if r \<le> - overflow_threshold then NInf
      else Fin r)"

fun float_add :: "pyfloat \<Rightarrow> pyfloat \<Rightarrow> pyfloat" where
  "float_add NaN b = NaN"
| "float_add a NaN = NaN"
| "float_add (Fin x) (Fin y) = finite_result (x + y)"
| "float_add PInf NInf = NaN"
| "float_add NInf PInf = NaN"
| "float_add PInf b = PInf"
| "float_add a PInf = PInf"
| "float_add NInf b = NInf"
| "float_add a NInf = NInf"

fun float_sign :: "pyfloat \<Rightarrow> int" where
  "float_sign (Fin x) = (if x < 0 then - 1 else if x = 0 then 0 else 1)"
| "float_sign PInf = 1"
| "float_sign NInf = - 1"
| "float_sign NaN = 0"

fun float_mul :: "pyfloat \<Rightarrow> pyfloat \<Rightarrow> pyfloat" where
  "float_mul NaN b = NaN"
| "float_mul a NaN = NaN"
| "float_mul (Fin x) (Fin y) = finite_result (x * y)"
| "float_mul a b =
     (if float_sign a * float_sign b = 0 then NaN
      else if 0 < float_sign a * float_sign b then PInf else NInf)"

instantiation pyfloat :: "{zero,one,plus,times}"
begin
definition zero_pyfloat :: pyfloat where "zero_pyfloat = Fin 0"
definition one_pyfloat :: pyfloat where "one_pyfloat = Fin 1"
definition plus_pyfloat :: "pyfloat \<Rightarrow> pyfloat \<Rightarrow> pyfloat" where "plus_pyfloat = float_add"
definition times_pyfloat :: "pyfloat \<Rightarrow> pyfloat \<Rightarrow> pyfloat" where "times_pyfloat = float_mul"
instance ..
end

fun is_finite :: "pyfloat \<Rightarrow> bool" where
  "is_finite (Fin x) = True"
| "is_finite a = False"

text \<open>
  The test of the script's assertions, \<open>abs(a - b) <= tol\<close>: a difference with an
  infinity or NaN in it is infinite or NaN, and the comparison is then false.
\<close>

fun within_tol :: "pyfloat \<Rightarrow> pyfloat \<Rightarrow> real \<Rightarrow> bool" where
  "within_tol (Fin a) (Fin b) tol = (\<bar>a - b\<bar> \<le> tol)"
| "within_tol a b tol = False"

text \<open>
  The library functions \<open>math.sin\<close> and \<open>math.cos\<close>, which are not code of the
  repository: the real sine and cosine on a finite float, NaN on NaN, and at an infinity
  they raise \<open>ValueError\<close> (math domain error).
\<close>

fun math_sin :: "pyfloat \<Rightarrow> error + pyfloat" where
  "math_sin (Fin x) = Inr (Fin (sin x))"
| "math_sin NaN = Inr NaN"
| "math_sin PInf = Inl ValueError"
| "math_sin NInf = Inl ValueError"

fun math_cos :: "pyfloat \<Rightarrow> error + pyfloat" where
  "math_cos (Fin x) = Inr (Fin (cos x))"
| "math_cos NaN = Inr NaN"
| "math_cos PInf = Inl ValueError"
| "math_cos NInf = Inl ValueError"

subsection \<open>The script\<close>

text \<open>
  Lines 32 to 35: \<open>x = Var(0.5)\<close>, \<open>y = Var(4.2)\<close>, \<open>z = x * y + sin(x)\<close>,
  \<open>z.grad_value = 1.0\<close>. The product is built first, then the sine, then the sum. An
  exception of \<open>sin\<close> ends the script.
\<close>

definition script :: "error + nat \<times> nat \<times> nat \<times> pyfloat heap" where
  "script =
     (let (x, h1) = Var (Fin (1 / 2)) [];
          (y, h2) = Var (Fin (42 / 10)) h1;
          (xy, h3) = Var_mul x y h2
      in case sin_Var math_sin math_cos x h3 of
           Inl e \<Rightarrow> Inl e
         | Inr (sx, h4) \<Rightarrow>
             (let (z, h5) = Var_add xy sx h4;
                  h6 = seed_root z h5
              in Inr (x, y, z, h6)))"

subsection \<open>Graphs that the operations build\<close>

text \<open>One forward operation that returns: a new leaf, a sum, a product or a sine of
  existing nodes.\<close>

inductive forward_step :: "'a::{zero,one,plus,times} heap \<Rightarrow> 'a heap \<Rightarrow> bool" where
  leaf: "forward_step h (snd (Var v h))"
| add: "a < length h \<Longrightarrow> b < length h \<Longrightarrow> forward_step h (snd (Var_add a b h))"
| mul: "a < length h \<Longrightarrow> b < length h \<Longrightarrow> forward_step h (snd (Var_mul a b h))"
| sin: "x < length h \<Longrightarrow> sin_Var msin mcos x h = Inr (z, h') \<Longrightarrow> forward_step h h'"

text \<open>\<open>built\<close>: the forward operations only. \<open>unseeded\<close>: forward operations and calls of
  \<open>grad\<close>, no node ever seeded. \<open>reachable\<close>: every state a program can reach with the
  forward operations, seeding and \<open>grad\<close>.\<close>

inductive built :: "'a::{zero,one,plus,times} heap \<Rightarrow> bool" where
  empty: "built []"
| forward: "built h \<Longrightarrow> forward_step h h' \<Longrightarrow> built h'"

inductive unseeded :: "'a::{zero,one,plus,times} heap \<Rightarrow> bool" where
  empty: "unseeded []"
| forward: "unseeded h \<Longrightarrow> forward_step h h' \<Longrightarrow> unseeded h'"
| grad: "unseeded h \<Longrightarrow> grad k n h = Some (v, h') \<Longrightarrow> unseeded h'"

inductive reachable :: "'a::{zero,one,plus,times} heap \<Rightarrow> bool" where
  empty: "reachable []"
| forward: "reachable h \<Longrightarrow> forward_step h h' \<Longrightarrow> reachable h'"
| grad: "reachable h \<Longrightarrow> grad k n h = Some (v, h') \<Longrightarrow> reachable h'"
| seed: "reachable h \<Longrightarrow> z < length h \<Longrightarrow> reachable (seed_root z h)"

text \<open>
  The invariant of the graph: every edge points to a node created later. \<open>height h n\<close>
  is the number of nodes on the longest path of edges that starts at \<open>n\<close>: the depth of
  the graph below \<open>n\<close>.
\<close>

definition forward_edges :: "'a heap \<Rightarrow> bool" where
  "forward_edges h = (\<forall>i<length h. \<forall>(w, c)\<in>set (children (h ! i)). i < c \<and> c < length h)"

function height :: "'a heap \<Rightarrow> nat \<Rightarrow> nat" where
  "height h n =
     (if length h \<le> n then 0
      else Suc (fold max
             (map (\<lambda>(w, c). if n < c \<and> c < length h then height h c else 0) (children (h ! n))) 0))"
  by pat_completeness auto
termination
  by (relation "measure (\<lambda>(h, n). length h - n)") auto

declare height.simps [simp del]

text \<open>What \<open>grad\<close> leaves alone: the values and the edges (\<open>skeleton\<close>), and every cache
  that is already set.\<close>

definition skeleton :: "'a var \<Rightarrow> 'a \<times> ('a \<times> nat) list" where
  "skeleton v = (value' v, children v)"

definition cache_grows :: "'a heap \<Rightarrow> 'a heap \<Rightarrow> bool" where
  "cache_grows h h' \<longleftrightarrow>
     map skeleton h' = map skeleton h \<and>
     (\<forall>i<length h. grad_value (h ! i) \<noteq> None \<longrightarrow> grad_value (h' ! i) = grad_value (h ! i))"

text \<open>Python's \<open>sum\<close> of the products \<open>weight * g\<close>, from 0 and from left to right.\<close>

definition weighted_sum :: "('a::{zero,plus,times} \<times> 'a) list \<Rightarrow> 'a" where
  "weighted_sum wgs = foldl (\<lambda>acc (weight, g). acc + weight * g) 0 wgs"

definition finite_weights :: "pyfloat heap \<Rightarrow> bool" where
  "finite_weights h = (\<forall>v\<in>set h. \<forall>(w, c)\<in>set (children v). is_finite w)"

definition zero_caches :: "pyfloat heap \<Rightarrow> bool" where
  "zero_caches h = (\<forall>v\<in>set h. grad_value v = None \<or> grad_value v = Some 0)"

section \<open>Properties of the forward operations\<close>

text \<open>Small results do not overflow.\<close>

lemma overflow_threshold_large: "1000 < overflow_threshold"
  by (simp add: overflow_threshold_def)

lemma finite_result_small [simp]: "\<bar>r\<bar> \<le> 1000 \<Longrightarrow> finite_result r = Fin r"
proof -
  assume "\<bar>r\<bar> \<le> 1000"
  then have "\<not> overflow_threshold \<le> r" and "\<not> r \<le> - overflow_threshold"
    using overflow_threshold_large by linarith+
  then show ?thesis by (simp add: finite_result_def)
qed

lemma length_append_child: "length (append_child i e h) = length h"
  by (simp add: append_child_def)

lemma nth_append_child:
  "j < length h \<Longrightarrow>
   append_child i e h ! j = (if j = i then (h ! i)\<lparr>children := children (h ! i) @ [e]\<rparr> else h ! j)"
  by (simp add: append_child_def)

lemma Var_mul_fst: "fst (Var_mul a b h) = length h"
  by (simp add: Var_mul_def Var_def Let_def)

lemma Var_mul_length: "length (snd (Var_mul a b h)) = Suc (length h)"
  by (simp add: Var_mul_def Var_def Let_def length_append_child)

lemma Var_mul_new:
  "a < length h \<Longrightarrow> b < length h \<Longrightarrow>
   snd (Var_mul a b h) ! length h =
     \<lparr>value' = value' (h ! a) * value' (h ! b), children = [], grad_value = None\<rparr>"
  by (simp add: Var_mul_def Var_def Let_def length_append_child nth_append_child)

lemma Var_mul_old:
  "a < length h \<Longrightarrow> b < length h \<Longrightarrow> i < length h \<Longrightarrow>
   snd (Var_mul a b h) ! i =
     (h ! i)\<lparr>children := children (h ! i)
        @ (if i = a then [(value' (h ! b), length h)] else [])
        @ (if i = b then [(value' (h ! a), length h)] else [])\<rparr>"
  by (simp add: Var_mul_def Var_def Let_def length_append_child nth_append_child nth_append)

lemma Var_add_fst: "fst (Var_add a b h) = length h"
  by (simp add: Var_add_def Var_def Let_def)

lemma Var_add_length: "length (snd (Var_add a b h)) = Suc (length h)"
  by (simp add: Var_add_def Var_def Let_def length_append_child)

lemma Var_add_new:
  "a < length h \<Longrightarrow> b < length h \<Longrightarrow>
   snd (Var_add a b h) ! length h =
     \<lparr>value' = value' (h ! a) + value' (h ! b), children = [], grad_value = None\<rparr>"
  by (simp add: Var_add_def Var_def Let_def length_append_child nth_append_child)

lemma Var_add_old:
  "a < length h \<Longrightarrow> b < length h \<Longrightarrow> i < length h \<Longrightarrow>
   snd (Var_add a b h) ! i =
     (h ! i)\<lparr>children := children (h ! i)
        @ (if i = a then [(1, length h)] else [])
        @ (if i = b then [(1, length h)] else [])\<rparr>"
  by (simp add: Var_add_def Var_def Let_def length_append_child nth_append_child nth_append)

lemma sin_Var_raises:
  "msin (value' (h ! x)) = Inl e \<Longrightarrow> sin_Var msin mcos x h = Inl e"
  by (simp add: sin_Var_def)

lemma sin_Var_cos_raises:
  "x < length h \<Longrightarrow> msin (value' (h ! x)) = Inr s \<Longrightarrow> mcos (value' (h ! x)) = Inl e
   \<Longrightarrow> sin_Var msin mcos x h = Inl e"
  by (simp add: sin_Var_def Var_def nth_append)

lemma sin_Var_returns:
  "x < length h \<Longrightarrow> msin (value' (h ! x)) = Inr s \<Longrightarrow> mcos (value' (h ! x)) = Inr c
   \<Longrightarrow> sin_Var msin mcos x h =
         Inr (length h,
              append_child x (c, length h)
                (h @ [\<lparr>value' = s, children = [], grad_value = None\<rparr>]))"
  by (simp add: sin_Var_def Var_def nth_append)

lemma sin_Var_Inr:
  assumes "x < length h" and "sin_Var msin mcos x h = Inr (z, h')"
  shows "\<exists>s c. msin (value' (h ! x)) = Inr s \<and> mcos (value' (h ! x)) = Inr c
           \<and> z = length h
           \<and> h' = append_child x (c, length h)
                  (h @ [\<lparr>value' = s, children = [], grad_value = None\<rparr>])"
  using assms by (auto simp: sin_Var_def Var_def nth_append split: sum.splits)

lemma sin_heap_length:
  "length (append_child x (c, length h) (h @ [\<lparr>value' = s, children = [], grad_value = None\<rparr>]))
     = Suc (length h)"
  by (simp add: length_append_child)

lemma sin_heap_new:
  "x < length h \<Longrightarrow>
   append_child x (c, length h) (h @ [\<lparr>value' = s, children = [], grad_value = None\<rparr>]) ! length h
     = \<lparr>value' = s, children = [], grad_value = None\<rparr>"
  by (simp add: nth_append_child)

lemma sin_heap_old:
  "x < length h \<Longrightarrow> i < length h \<Longrightarrow>
   append_child x (c, length h) (h @ [\<lparr>value' = s, children = [], grad_value = None\<rparr>]) ! i
     = (h ! i)\<lparr>children := children (h ! i) @ (if i = x then [(c, length h)] else [])\<rparr>"
  by (simp add: nth_append_child nth_append)

lemma Var_length: "length (snd (Var v h)) = Suc (length h)"
  by (simp add: Var_def)

lemma Var_new: "snd (Var v h) ! length h = \<lparr>value' = v, children = [], grad_value = None\<rparr>"
  by (simp add: Var_def)

lemma Var_old: "i < length h \<Longrightarrow> snd (Var v h) ! i = h ! i"
  by (simp add: Var_def nth_append)

text \<open>The shape of one forward step.\<close>

lemma forward_step_shape:
  assumes "forward_step h h'"
  shows "length h' = Suc (length h)"
    and "children (h' ! length h) = [] \<and> grad_value (h' ! length h) = None"
    and "i < length h \<Longrightarrow> value' (h' ! i) = value' (h ! i) \<and> grad_value (h' ! i) = grad_value (h ! i)
           \<and> (\<exists>ws. children (h' ! i) = children (h ! i) @ map (\<lambda>w. (w, length h)) ws)"
  using assms
proof (induction rule: forward_step.induct)
  case (leaf h v)
  { case 1 show ?case by (rule Var_length) }
  { case 2 show ?case by (simp add: Var_new) }
  { case 3 then show ?case by (simp add: Var_old) }
next
  case (add a h b)
  { case 1 show ?case by (rule Var_add_length) }
  { case 2 show ?case using add by (simp add: Var_add_new) }
  { case 3
    have "\<exists>ws. (if i = a then [(1::'a, length h)] else []) @ (if i = b then [(1, length h)] else [])
            = map (\<lambda>w. (w, length h)) ws"
      by (rule exI [of _ "(if i = a then [1] else []) @ (if i = b then [1] else [])"]) simp
    then show ?case using add 3 by (simp add: Var_add_old) }
next
  case (mul a h b)
  { case 1 show ?case by (rule Var_mul_length) }
  { case 2 show ?case using mul by (simp add: Var_mul_new) }
  { case 3
    have "\<exists>ws. (if i = a then [(value' (h ! b), length h)] else []) @ (if i = b then [(value' (h ! a), length h)] else [])
            = map (\<lambda>w. (w, length h)) ws"
      by (rule exI [of _ "(if i = a then [value' (h ! b)] else []) @ (if i = b then [value' (h ! a)] else [])"]) simp
    then show ?case using mul 3 by (simp add: Var_mul_old) }
next
  case (sin x h msin mcos z h')
  from sin_Var_Inr [OF sin] obtain s c where
    h': "h' = append_child x (c, length h) (h @ [\<lparr>value' = s, children = [], grad_value = None\<rparr>])"
    by blast
  { case 1 show ?case unfolding h' by (rule sin_heap_length) }
  { case 2 show ?case unfolding h' using sin(1) by (simp add: sin_heap_new) }
  { case 3
    have "\<exists>ws. (if i = x then [(c, length h)] else [])
            = map (\<lambda>w. (w, length h)) ws"
      by (rule exI [of _ "(if i = x then [c] else [])"]) simp
    then show ?case unfolding h' using sin(1) 3 by (simp add: sin_heap_old) }
qed

text \<open>
  Claim C2. For nodes \<open>a\<close> and \<open>b\<close> of the heap, \<open>a * b\<close> returns a new node (the next
  index), whose value is the product of the two values and which has no edge and no cached
  gradient; every old node keeps its value and cache, and its list of edges grows by one
  edge of weight \<open>b.value\<close> to the new node if it is \<open>a\<close>, then by one edge of weight
  \<open>a.value\<close> to the new node if it is \<open>b\<close> (both, in this order, when \<open>a\<close> and \<open>b\<close> are
  the same node), and by nothing otherwise.
\<close>

theorem Var_mul_spec:
  assumes "a < length h" and "b < length h"
  shows "fst (Var_mul a b h) = length h
       \<and> length (snd (Var_mul a b h)) = Suc (length h)
       \<and> snd (Var_mul a b h) ! length h =
            \<lparr>value' = value' (h ! a) * value' (h ! b), children = [], grad_value = None\<rparr>
       \<and> (\<forall>i<length h. snd (Var_mul a b h) ! i =
            (h ! i)\<lparr>children := children (h ! i)
               @ (if i = a then [(value' (h ! b), length h)] else [])
               @ (if i = b then [(value' (h ! a), length h)] else [])\<rparr>)"
  using assms by (simp add: Var_mul_fst Var_mul_length Var_mul_new Var_mul_old)

theorem Var_mul_spec_witness:
  "(0::nat) < length [\<lparr>value' = Fin 3, children = [], grad_value = None\<rparr>,
                     \<lparr>value' = Fin 5, children = [], grad_value = None\<rparr>]
   \<and> (1::nat) < length [\<lparr>value' = Fin 3, children = [], grad_value = None\<rparr>,
                       \<lparr>value' = Fin 5, children = [], grad_value = None\<rparr>]
   \<and> Var_mul 0 1 [\<lparr>value' = Fin 3, children = [], grad_value = None\<rparr>,
                   \<lparr>value' = Fin 5, children = [], grad_value = None\<rparr>]
     = (2, [\<lparr>value' = Fin 3, children = [(Fin 5, 2)], grad_value = None\<rparr>,
            \<lparr>value' = Fin 5, children = [(Fin 3, 2)], grad_value = None\<rparr>,
            \<lparr>value' = Fin 15, children = [], grad_value = None\<rparr>])"
  using Var_mul_spec [of 0 "[\<lparr>value' = Fin 3, children = [], grad_value = None\<rparr>,
                            \<lparr>value' = Fin 5, children = [], grad_value = None\<rparr>]" 1]
  by (simp add: Var_mul_def Var_def append_child_def times_pyfloat_def)

text \<open>
  Claim C7. For nodes \<open>a\<close> and \<open>b\<close> of the heap, \<open>a + b\<close> returns a new node whose value
  is the sum of the two values, with no edge and no cached gradient; the list of edges of
  \<open>a\<close> grows by one edge of weight 1 to the new node, and so does the list of \<open>b\<close>;
  nothing else changes.
\<close>

theorem Var_add_spec:
  assumes "a < length h" and "b < length h"
  shows "fst (Var_add a b h) = length h
       \<and> length (snd (Var_add a b h)) = Suc (length h)
       \<and> snd (Var_add a b h) ! length h =
            \<lparr>value' = value' (h ! a) + value' (h ! b), children = [], grad_value = None\<rparr>
       \<and> (\<forall>i<length h. snd (Var_add a b h) ! i =
            (h ! i)\<lparr>children := children (h ! i)
               @ (if i = a then [(1, length h)] else [])
               @ (if i = b then [(1, length h)] else [])\<rparr>)"
  using assms by (simp add: Var_add_fst Var_add_length Var_add_new Var_add_old)

theorem Var_add_spec_witness:
  "(0::nat) < length [\<lparr>value' = Fin 3, children = [], grad_value = None\<rparr>,
                     \<lparr>value' = Fin 5, children = [], grad_value = None\<rparr>]
   \<and> (1::nat) < length [\<lparr>value' = Fin 3, children = [], grad_value = None\<rparr>,
                       \<lparr>value' = Fin 5, children = [], grad_value = None\<rparr>]
   \<and> Var_add 0 1 [\<lparr>value' = Fin 3, children = [], grad_value = None\<rparr>,
                   \<lparr>value' = Fin 5, children = [], grad_value = None\<rparr>]
     = (2, [\<lparr>value' = Fin 3, children = [(Fin 1, 2)], grad_value = None\<rparr>,
            \<lparr>value' = Fin 5, children = [(Fin 1, 2)], grad_value = None\<rparr>,
            \<lparr>value' = Fin 8, children = [], grad_value = None\<rparr>])"
  using Var_add_spec [of 0 "[\<lparr>value' = Fin 3, children = [], grad_value = None\<rparr>,
                            \<lparr>value' = Fin 5, children = [], grad_value = None\<rparr>]" 1]
  by (simp add: Var_add_def Var_def append_child_def plus_pyfloat_def one_pyfloat_def)

lemma math_sin_cos_return:
  "v \<noteq> PInf \<Longrightarrow> v \<noteq> NInf \<Longrightarrow> \<exists>s c. math_sin v = Inr s \<and> math_cos v = Inr c"
  by (cases v) simp_all

text \<open>
  Claim C8, as amended. For every node \<open>x\<close> of the heap: when \<open>math.sin(x.value)\<close> and
  \<open>math.cos(x.value)\<close> return, \<open>sin(x)\<close> returns a new node whose value is
  \<open>math.sin(x.value)\<close>, with no edge and no cached gradient, the list of edges of \<open>x\<close>
  grows by one edge of weight \<open>math.cos(x.value)\<close> to the new node, and nothing else
  changes; when one of the two raises an exception, \<open>sin(x)\<close> raises it. This holds whatever
  stands for \<open>math.sin\<close> and \<open>math.cos\<close>; on Python's floats they return at every value
  but the two infinities.
\<close>

theorem sin_Var_spec:
  assumes "x < length h"
  shows "case msin (value' (h ! x)) of
           Inl e \<Rightarrow> sin_Var msin mcos x h = Inl e
         | Inr s \<Rightarrow>
            (case mcos (value' (h ! x)) of
               Inl e \<Rightarrow> sin_Var msin mcos x h = Inl e
             | Inr c \<Rightarrow>
                (\<exists>h'. sin_Var msin mcos x h = Inr (length h, h')
                   \<and> length h' = Suc (length h)
                   \<and> h' ! length h = \<lparr>value' = s, children = [], grad_value = None\<rparr>
                   \<and> (\<forall>i<length h. h' ! i =
                        (h ! i)\<lparr>children := children (h ! i)
                           @ (if i = x then [(c, length h)] else [])\<rparr>)))"
proof (cases "msin (value' (h ! x))")
  case (Inl e)
  then show ?thesis by (simp add: sin_Var_raises)
next
  case s: (Inr s)
  show ?thesis
  proof (cases "mcos (value' (h ! x))")
    case (Inl e)
    then show ?thesis using s assms by (simp add: sin_Var_cos_raises)
  next
    case c: (Inr c)
    show ?thesis
      using s c assms
      by (simp add: sin_Var_returns sin_heap_length sin_heap_new sin_heap_old)
  qed
qed

theorem sin_Var_spec_witness:
  "(0::nat) < length [\<lparr>value' = Fin 0, children = [], grad_value = None\<rparr>]
   \<and> math_sin (Fin 0) = Inr (Fin 0)
   \<and> math_cos (Fin 0) = Inr (Fin 1)
   \<and> sin_Var math_sin math_cos 0 [\<lparr>value' = Fin 0, children = [], grad_value = None\<rparr>]
     = Inr (1, [\<lparr>value' = Fin 0, children = [(Fin 1, 1)], grad_value = None\<rparr>,
                \<lparr>value' = Fin 0, children = [], grad_value = None\<rparr>])"
  using sin_Var_spec [of 0 "[\<lparr>value' = Fin 0, children = [], grad_value = None\<rparr>]" math_sin math_cos]
  by (simp add: sin_Var_def Var_def append_child_def)

text \<open>
  The claim as stated, for every node, fails: with \<open>x = Var(inf)\<close> the call
  \<open>math.sin(x.value)\<close> raises \<open>ValueError\<close>, so \<open>sin(x)\<close> returns no node and appends no edge.
\<close>

theorem sin_Var_spec_counterexample:
  "(0::nat) < length [\<lparr>value' = PInf, children = [], grad_value = None\<rparr>]
   \<and> math_sin (value' ([\<lparr>value' = PInf, children = [], grad_value = None\<rparr>] ! 0)) = Inl ValueError
   \<and> sin_Var math_sin math_cos 0 [\<lparr>value' = PInf, children = [], grad_value = None\<rparr>]
     = Inl ValueError"
  by (simp add: sin_Var_def)

section \<open>Properties of the reverse pass\<close>

subsection \<open>\<open>grad\<close> only fills caches\<close>

lemma same_skeleton_length: "map skeleton h' = map skeleton h \<Longrightarrow> length h' = length h"
  by (metis length_map)

lemma same_skeleton_nth:
  "map skeleton h' = map skeleton h \<Longrightarrow> i < length h \<Longrightarrow>
   value' (h' ! i) = value' (h ! i) \<and> children (h' ! i) = children (h ! i)"
proof -
  assume eq: "map skeleton h' = map skeleton h" and i: "i < length h"
  have len: "length h' = length h" using eq by (rule same_skeleton_length)
  have "map skeleton h' ! i = map skeleton h ! i" using eq by simp
  then have "skeleton (h' ! i) = skeleton (h ! i)" using i len by simp
  then show ?thesis by (simp add: skeleton_def)
qed

lemma cache_grows_length: "cache_grows h h' \<Longrightarrow> length h' = length h"
  unfolding cache_grows_def by (metis length_map)

lemma cache_grows_refl: "cache_grows h h"
  by (simp add: cache_grows_def)

lemma cache_grows_trans:
  assumes "cache_grows h1 h2" and "cache_grows h2 h3"
  shows "cache_grows h1 h3"
proof -
  have len: "length h2 = length h1"
    using assms(1) by (rule cache_grows_length)
  have "grad_value (h3 ! i) = grad_value (h1 ! i)" if "i < length h1" "grad_value (h1 ! i) \<noteq> None" for i
  proof -
    have a: "grad_value (h2 ! i) = grad_value (h1 ! i)"
      using assms(1) that by (simp add: cache_grows_def)
    then have "grad_value (h3 ! i) = grad_value (h2 ! i)"
      using assms(2) that len by (simp add: cache_grows_def)
    with a show ?thesis by simp
  qed
  then show ?thesis using assms by (simp add: cache_grows_def)
qed

lemma skeleton_set_grad_value: "map skeleton (set_grad_value n s h) = map skeleton h"
proof (cases "n < length h")
  case True
  have "map skeleton (set_grad_value n s h) = (map skeleton h)[n := map skeleton h ! n]"
    using True by (simp add: set_grad_value_def map_update skeleton_def)
  then show ?thesis by simp
next
  case False
  then have "length h \<le> n" by simp
  then have "set_grad_value n s h = h"
    unfolding set_grad_value_def by (rule list_update_beyond)
  then show ?thesis by simp
qed

lemma cache_grows_set_grad_value:
  "grad_value (h ! n) = None \<Longrightarrow> cache_grows h (set_grad_value n s h)"
proof -
  assume none: "grad_value (h ! n) = None"
  have "grad_value (set_grad_value n s h ! i) = grad_value (h ! i)"
    if "i < length h" "grad_value (h ! i) \<noteq> None" for i
  proof -
    from that none have "i \<noteq> n" by auto
    then show ?thesis by (simp add: set_grad_value_def)
  qed
  then show ?thesis by (simp add: cache_grows_def skeleton_set_grad_value)
qed

lemma sum_gen_grows:
  assumes g: "\<And>c h0 v h1. g c h0 = Some (v, h1) \<Longrightarrow> cache_grows h0 h1"
  shows "sum_gen g es acc h = Some (s, h') \<Longrightarrow> cache_grows h h'"
proof (induction es arbitrary: acc h)
  case Nil
  then show ?case by (simp add: cache_grows_refl)
next
  case (Cons e es)
  obtain w c where e: "e = (w, c)" by (cases e)
  from Cons.prems e obtain gv h1 where
    call: "g c h = Some (gv, h1)" and rest: "sum_gen g es (acc + w * gv) h1 = Some (s, h')"
    by (auto split: option.splits)
  from g [OF call] Cons.IH [OF rest] show ?case by (rule cache_grows_trans)
qed

lemma grad_grows:
  "grad k n h = Some (v, h') \<Longrightarrow> cache_grows h h'"
proof (induction k arbitrary: n h v h')
  case 0
  then show ?case by simp
next
  case (Suc k)
  from Suc.prems have n: "n < length h" by (auto split: if_splits)
  show ?case
  proof (cases "grad_value (h ! n)")
    case (Some g)
    with Suc.prems n show ?thesis by (simp add: cache_grows_refl)
  next
    case None
    with Suc.prems n obtain s h1 where
      loop: "sum_gen (grad k) (children (h ! n)) 0 h = Some (s, h1)"
      and res: "v = s" "h' = set_grad_value n s h1"
      by (auto split: option.splits)
    have g1: "cache_grows h h1"
      by (rule sum_gen_grows [OF Suc.IH loop])
    have len: "length h1 = length h"
      using g1 by (rule cache_grows_length)
    have skel: "map skeleton h' = map skeleton h"
      using g1 res by (simp add: skeleton_set_grad_value cache_grows_def)
    have "grad_value (h' ! i) = grad_value (h ! i)" if "i < length h" "grad_value (h ! i) \<noteq> None" for i
    proof -
      from that None have "i \<noteq> n" by auto
      then have "grad_value (h' ! i) = grad_value (h1 ! i)"
        using res by (simp add: set_grad_value_def)
      also have "\<dots> = grad_value (h ! i)" using g1 that by (simp add: cache_grows_def)
      finally show ?thesis .
    qed
    with skel show ?thesis by (simp add: cache_grows_def)
  qed
qed

lemma grad_caches:
  "grad k n h = Some (v, h') \<Longrightarrow> n < length h \<and> grad_value (h' ! n) = Some v"
proof (cases k)
  case 0
  assume "grad k n h = Some (v, h')"
  with 0 show ?thesis by simp
next
  case (Suc d)
  assume r: "grad k n h = Some (v, h')"
  with Suc have n: "n < length h" by (auto split: if_splits)
  show ?thesis
  proof (cases "grad_value (h ! n)")
    case (Some g)
    with r Suc n show ?thesis by simp
  next
    case None
    with r Suc n obtain h1 where
      loop: "sum_gen (grad d) (children (h ! n)) 0 h = Some (v, h1)"
      and res: "h' = set_grad_value n v h1"
      by (auto split: option.splits)
    have "cache_grows h h1"
      by (rule sum_gen_grows [OF grad_grows loop])
    then have "length h1 = length h"
      by (rule cache_grows_length)
    with n res show ?thesis by (simp add: set_grad_value_def)
  qed
qed

lemma fold_max_ge: "x \<in> set xs \<Longrightarrow> x \<le> fold max xs (a::nat)"
  by (simp add: Max.set_eq_fold [symmetric])

lemma fold_max_le: "a \<le> b \<Longrightarrow> (\<And>x. x \<in> set xs \<Longrightarrow> x \<le> b) \<Longrightarrow> fold max xs (a::nat) \<le> b"
  by (simp add: Max.set_eq_fold [symmetric])

lemma height_child:
  assumes "forward_edges h" and "n < length h" and "(w, c) \<in> set (children (h ! n))"
  shows "height h c < height h n"
proof -
  let ?f = "\<lambda>(w, c). if n < c \<and> c < length h then height h c else 0"
  from assms have c: "n < c \<and> c < length h"
    by (auto simp: forward_edges_def)
  have "?f (w, c) \<in> set (map ?f (children (h ! n)))"
    unfolding set_map using assms(3) by (rule imageI)
  then have "?f (w, c) \<le> fold max (map ?f (children (h ! n))) 0"
    by (rule fold_max_ge)
  then have "height h c \<le> fold max (map ?f (children (h ! n))) 0"
    using c by simp
  then show ?thesis
    using assms(2) by (subst (2) height.simps) simp
qed

lemma height_pos: "n < length h \<Longrightarrow> 0 < height h n"
  by (subst height.simps) simp

lemma height_skeleton:
  "map skeleton h' = map skeleton h \<Longrightarrow> height h' n = height h n"
proof (induction h n rule: height.induct)
  case (1 h n)
  have len: "length h' = length h" using "1.prems" by (rule same_skeleton_length)
  show ?case
  proof (cases "length h \<le> n")
    case True
    then show ?thesis using len by (simp add: height.simps)
  next
    case False
    then have ch: "children (h' ! n) = children (h ! n)"
      using same_skeleton_nth [OF "1.prems", of n] by simp
    have "map (\<lambda>(w, c). if n < c \<and> c < length h' then height h' c else 0) (children (h' ! n))
        = map (\<lambda>(w, c). if n < c \<and> c < length h then height h c else 0) (children (h ! n))"
      unfolding ch len
    proof (rule map_cong [OF refl])
      fix e assume e: "e \<in> set (children (h ! n))"
      obtain w c where wc: "e = (w, c)" by (cases e)
      show "(case e of (w, c) \<Rightarrow> if n < c \<and> c < length h then height h' c else 0)
          = (case e of (w, c) \<Rightarrow> if n < c \<and> c < length h then height h c else 0)"
        using "1.IH" [OF False e wc [symmetric] _ "1.prems"] wc by simp
    qed
    then show ?thesis
      using False len by (simp add: height.simps [of h n] height.simps [of h' n])
  qed
qed

lemma forward_edges_skeleton:
  assumes "map skeleton h' = map skeleton h"
  shows "forward_edges h' = forward_edges h"
proof -
  have len: "length h' = length h" using assms by (rule same_skeleton_length)
  have "children (h' ! i) = children (h ! i)" if "i < length h" for i
    using same_skeleton_nth [OF assms that] by simp
  then show ?thesis
    unfolding forward_edges_def len by auto
qed


lemma height_le:
  "forward_edges h \<Longrightarrow> n < length h \<Longrightarrow> height h n \<le> length h - n"
proof (induction h n rule: height.induct)
  case (1 h n)
  let ?f = "\<lambda>(w, c). if n < c \<and> c < length h then height h c else 0"
  have "fold max (map ?f (children (h ! n))) 0 \<le> length h - Suc n"
  proof (rule fold_max_le)
    fix x assume "x \<in> set (map ?f (children (h ! n)))"
    then obtain e where e: "e \<in> set (children (h ! n))" and x: "x = ?f e" by auto
    obtain w c where wc: "e = (w, c)" by (cases e)
    show "x \<le> length h - Suc n"
    proof (cases "n < c \<and> c < length h")
      case True
      have "height h c \<le> length h - c"
        using "1.IH" [OF _ e wc [symmetric] True "1.prems"(1)] "1.prems"(2) True by simp
      moreover have "length h - c \<le> length h - Suc n"
        using True by arith
      ultimately show ?thesis using x wc True by simp
    next
      case False
      then have "x = 0" using x wc by auto
      then show ?thesis by simp
    qed
  qed simp
  then show ?case
    using "1.prems"(2) by (subst height.simps) simp
qed

lemma sum_gen_returns:
  "(\<forall>(w, c)\<in>set es. \<forall>h0. cache_grows h h0 \<longrightarrow>
       (\<exists>v h1. g c h0 = Some (v, h1) \<and> cache_grows h0 h1))
   \<Longrightarrow> \<exists>s h'. sum_gen g es acc h = Some (s, h')"
proof (induction es arbitrary: acc h)
  case Nil
  then show ?case by simp
next
  case (Cons e es)
  obtain w c where e: "e = (w, c)" by (cases e)
  from Cons.prems e obtain gv h1 where
    call: "g c h = Some (gv, h1)" and grow: "cache_grows h h1"
    using cache_grows_refl [of h] by fastforce
  have "\<forall>(w, c)\<in>set es. \<forall>h0. cache_grows h1 h0 \<longrightarrow>
          (\<exists>v h2. g c h0 = Some (v, h2) \<and> cache_grows h0 h2)"
    using Cons.prems cache_grows_trans [OF grow] by fastforce
  from Cons.IH [OF this, of "acc + w * gv"] show ?case
    using call e by simp
qed

lemma grad_returns:
  "forward_edges h \<Longrightarrow> n < length h \<Longrightarrow> height h n \<le> k
   \<Longrightarrow> \<exists>v h'. grad k n h = Some (v, h')"
proof (induction k arbitrary: n h)
  case 0
  then show ?case using height_pos [of n h] by simp
next
  case (Suc k)
  show ?case
  proof (cases "grad_value (h ! n)")
    case (Some g)
    then show ?thesis using Suc.prems by simp
  next
    case None
    have "\<forall>(w, c)\<in>set (children (h ! n)). \<forall>h0. cache_grows h h0 \<longrightarrow>
            (\<exists>v h1. grad k c h0 = Some (v, h1) \<and> cache_grows h0 h1)"
    proof (intro ballI allI impI, clarify)
      fix w c h0
      assume e: "(w, c) \<in> set (children (h ! n))" and grow: "cache_grows h h0"
      have skel: "map skeleton h0 = map skeleton h"
        using grow by (simp add: cache_grows_def)
      have fe: "forward_edges h0"
        using Suc.prems(1) forward_edges_skeleton [OF skel] by simp
      have c: "c < length h0"
        using Suc.prems(1,2) e same_skeleton_length [OF skel]
        by (auto simp: forward_edges_def)
      have "height h c < height h n"
        using Suc.prems(1,2) e by (rule height_child)
      then have "height h0 c \<le> k"
        using Suc.prems(3) height_skeleton [OF skel, of c] by simp
      from Suc.IH [OF fe c this] obtain v h1 where r: "grad k c h0 = Some (v, h1)"
        by blast
      with grad_grows [OF r] show "\<exists>v h1. grad k c h0 = Some (v, h1) \<and> cache_grows h0 h1"
        by blast
    qed
    from sum_gen_returns [OF this, of 0] obtain s h1 where
      "sum_gen (grad k) (children (h ! n)) 0 h = Some (s, h1)" by blast
    then show ?thesis using None Suc.prems(2) by simp
  qed
qed

lemma sum_gen_mono:
  assumes "\<And>c h0 r. g c h0 = Some r \<Longrightarrow> g' c h0 = Some r"
  shows "sum_gen g es acc h = Some r \<Longrightarrow> sum_gen g' es acc h = Some r"
proof (induction es arbitrary: acc h)
  case Nil
  then show ?case by simp
next
  case (Cons e es)
  obtain w c where e: "e = (w, c)" by (cases e)
  from Cons.prems e obtain gv h1 where
    call: "g c h = Some (gv, h1)" and rest: "sum_gen g es (acc + w * gv) h1 = Some r"
    by (auto split: option.splits)
  from assms [OF call] Cons.IH [OF rest] e show ?case by simp
qed

lemma grad_fuel_mono:
  "grad k n h = Some r \<Longrightarrow> k \<le> k' \<Longrightarrow> grad k' n h = Some r"
proof (induction k arbitrary: k' n h r)
  case 0
  then show ?case by simp
next
  case (Suc k)
  from Suc.prems(2) obtain j where k': "k' = Suc j" and kj: "k \<le> j"
    by (cases k') auto
  from Suc.prems(1) have n: "n < length h" by (auto split: if_splits)
  show ?case
  proof (cases "grad_value (h ! n)")
    case (Some g)
    then show ?thesis using Suc.prems(1) n k' by simp
  next
    case None
    with Suc.prems(1) n obtain s h1 where
      loop: "sum_gen (grad k) (children (h ! n)) 0 h = Some (s, h1)"
      and r: "r = (s, set_grad_value n s h1)"
      by (auto split: option.splits)
    have "sum_gen (grad j) (children (h ! n)) 0 h = Some (s, h1)"
      by (rule sum_gen_mono [OF Suc.IH [OF _ kj] loop])
    then show ?thesis using None n k' r by simp
  qed
qed

subsection \<open>The invariant of reachable heaps\<close>

lemma forward_step_forward_edges:
  assumes step: "forward_step h h'" and fe: "forward_edges h"
  shows "forward_edges h'"
  unfolding forward_edges_def
proof (intro allI impI ballI, clarify)
  fix i w c
  assume i: "i < length h'" and e: "(w, c) \<in> set (children (h' ! i))"
  have len: "length h' = Suc (length h)"
    using step by (rule forward_step_shape(1))
  show "i < c \<and> c < length h'"
  proof (cases "i < length h")
    case True
    from forward_step_shape(3) [OF step True] obtain ws where
      "children (h' ! i) = children (h ! i) @ map (\<lambda>w. (w, length h)) ws" by blast
    with e have "(w, c) \<in> set (children (h ! i)) \<or> c = length h" by auto
    then show ?thesis
    proof
      assume "(w, c) \<in> set (children (h ! i))"
      with fe True have "i < c \<and> c < length h" by (auto simp: forward_edges_def)
      then show ?thesis using len by simp
    next
      assume "c = length h"
      then show ?thesis using True len by simp
    qed
  next
    case False
    with i len have "i = length h" by simp
    with forward_step_shape(2) [OF step] e show ?thesis by simp
  qed
qed

lemma forward_edges_seed_root: "forward_edges (seed_root z h) = forward_edges h"
  unfolding seed_root_def by (rule forward_edges_skeleton) (rule skeleton_set_grad_value)

lemma forward_edges_grad:
  "grad k n h = Some (v, h') \<Longrightarrow> forward_edges h' = forward_edges h"
  by (rule forward_edges_skeleton) (simp add: grad_grows [unfolded cache_grows_def])

lemma built_unseeded: "built h \<Longrightarrow> unseeded h"
  by (induction rule: built.induct) (auto intro: unseeded.intros)

lemma unseeded_reachable: "unseeded h \<Longrightarrow> reachable h"
  by (induction rule: unseeded.induct) (auto intro: reachable.intros)

lemma reachable_forward_edges: "reachable h \<Longrightarrow> forward_edges h"
proof (induction rule: reachable.induct)
  case empty
  show ?case by (simp add: forward_edges_def)
next
  case (forward h h')
  then show ?case by (simp add: forward_step_forward_edges)
next
  case (grad h k n v h')
  then show ?case by (simp add: forward_edges_grad)
next
  case (seed h z)
  then show ?case by (simp add: forward_edges_seed_root)
qed

lemma grad_cached: "n < length h \<Longrightarrow> grad_value (h ! n) = Some g \<Longrightarrow> grad (Suc k) n h = Some (g, h)"
  by simp



text \<open>A small graph for the examples: \<open>x = Var(3.0)\<close>, \<open>y = x * x\<close>, before and after
  \<open>y\<close> is seeded.\<close>

lemma sq_heap: "snd (Var_mul 0 0 (snd (Var (Fin 3) []))) =
   [\<lparr>value' = Fin 3, children = [(Fin 3, 1), (Fin 3, 1)], grad_value = None\<rparr>,
    \<lparr>value' = Fin 9, children = [], grad_value = None\<rparr>]"
  by (simp add: Var_mul_def Var_def append_child_def times_pyfloat_def)

lemma sq_built: "built [\<lparr>value' = Fin 3, children = [(Fin 3, 1), (Fin 3, 1)], grad_value = None\<rparr>,
    \<lparr>value' = Fin 9, children = [], grad_value = None\<rparr>]"
proof -
  have "built (snd (Var (Fin 3) []))"
    by (rule built.forward [OF built.empty forward_step.leaf])
  then have "built (snd (Var_mul 0 0 (snd (Var (Fin 3) []))))"
    by (rule built.forward) (rule forward_step.mul, simp_all add: Var_def)
  then show ?thesis by (simp only: sq_heap)
qed

lemma sq_reachable:
  "reachable [\<lparr>value' = Fin 3, children = [(Fin 3, 1), (Fin 3, 1)], grad_value = None\<rparr>,
              \<lparr>value' = Fin 9, children = [], grad_value = Some (Fin 1)\<rparr>]"
proof -
  have "reachable (seed_root 1 [\<lparr>value' = Fin 3, children = [(Fin 3, 1), (Fin 3, 1)], grad_value = None\<rparr>,
          \<lparr>value' = Fin 9, children = [], grad_value = None\<rparr>])"
    by (rule reachable.seed [OF unseeded_reachable [OF built_unseeded [OF sq_built]]]) simp
  then show ?thesis by (simp add: seed_root_def set_grad_value_def one_pyfloat_def)
qed

subsection \<open>What \<open>grad\<close> computes\<close>



text \<open>
  Claim C6. In a graph built by the forward operations every edge points to a node
  created later, and \<open>grad(n)\<close> returns for every node \<open>n\<close>: a depth of nested calls equal
  to the height of \<open>n\<close> in the graph is enough (and the result is the same with every
  larger bound); that height is at most the number of nodes created from \<open>n\<close> on.
\<close>

theorem grad_terminates:
  assumes "built h" and "n < length h"
  shows "forward_edges h \<and> height h n \<le> length h - n
       \<and> (\<exists>v h'. \<forall>k\<ge>height h n. grad k n h = Some (v, h'))"
proof -
  have fe: "forward_edges h"
    using assms(1) by (simp add: built_unseeded unseeded_reachable reachable_forward_edges)
  from grad_returns [OF fe assms(2) order_refl] obtain v h' where
    r: "grad (height h n) n h = Some (v, h')" by blast
  have "\<forall>k\<ge>height h n. grad k n h = Some (v, h')"
    using grad_fuel_mono [OF r] by blast
  then show ?thesis using fe height_le [OF fe assms(2)] by blast
qed

theorem grad_terminates_witness:
  "built [\<lparr>value' = Fin 3, children = [(Fin 3, 1), (Fin 3, 1)], grad_value = None\<rparr>,
          \<lparr>value' = Fin 9, children = [], grad_value = None\<rparr>]
   \<and> (0::nat) < length [\<lparr>value' = Fin 3, children = [(Fin 3, 1), (Fin 3, 1)], grad_value = None\<rparr>,
          \<lparr>value' = Fin 9, children = [], grad_value = None\<rparr>]
   \<and> forward_edges [\<lparr>value' = Fin 3, children = [(Fin 3, 1), (Fin 3, 1)], grad_value = None\<rparr>,
          \<lparr>value' = Fin 9, children = [], grad_value = None\<rparr>]
   \<and> height [\<lparr>value' = Fin 3, children = [(Fin 3, 1), (Fin 3, 1)], grad_value = None\<rparr>,
          \<lparr>value' = Fin 9, children = [], grad_value = None\<rparr>] 0 = 2
   \<and> grad 2 0 [\<lparr>value' = Fin 3, children = [(Fin 3, 1), (Fin 3, 1)], grad_value = None\<rparr>,
          \<lparr>value' = Fin 9, children = [], grad_value = None\<rparr>]
     = Some (Fin 0, [\<lparr>value' = Fin 3, children = [(Fin 3, 1), (Fin 3, 1)], grad_value = Some (Fin 0)\<rparr>,
          \<lparr>value' = Fin 9, children = [], grad_value = Some (Fin 0)\<rparr>])
   \<and> grad 1 0 [\<lparr>value' = Fin 3, children = [(Fin 3, 1), (Fin 3, 1)], grad_value = None\<rparr>,
          \<lparr>value' = Fin 9, children = [], grad_value = None\<rparr>] = None"
  using sq_built grad_terminates [OF sq_built, of 0]
  by (simp add: height.simps numeral_2_eq_2 set_grad_value_def times_pyfloat_def
      plus_pyfloat_def zero_pyfloat_def)

text \<open>
  Claim C5. For a node \<open>n\<close> of a reachable heap, \<open>grad(n)\<close> returns a value \<open>v\<close> and a
  heap; a second call on that heap returns the same \<open>v\<close> and the same heap, unchanged,
  already with the depth bound 1, which allows no nested call.
\<close>

theorem grad_twice:
  assumes "reachable h" and "n < length h" and "height h n \<le> k"
  shows "\<exists>v h'. grad k n h = Some (v, h') \<and> (\<forall>j. grad (Suc j) n h' = Some (v, h'))"
proof -
  have fe: "forward_edges h"
    using assms(1) by (rule reachable_forward_edges)
  from grad_returns [OF fe assms(2,3)] obtain v h' where
    r: "grad k n h = Some (v, h')" by blast
  have len: "length h' = length h"
    using grad_grows [OF r] by (rule cache_grows_length)
  have "grad (Suc j) n h' = Some (v, h')" for j
    using grad_caches [OF r] len by simp
  with r show ?thesis by blast
qed

theorem grad_twice_witness:
  "reachable [\<lparr>value' = Fin 3, children = [(Fin 3, 1), (Fin 3, 1)], grad_value = None\<rparr>,
              \<lparr>value' = Fin 9, children = [], grad_value = Some (Fin 1)\<rparr>]
   \<and> (0::nat) < length [\<lparr>value' = Fin 3, children = [(Fin 3, 1), (Fin 3, 1)], grad_value = None\<rparr>,
              \<lparr>value' = Fin 9, children = [], grad_value = Some (Fin 1)\<rparr>]
   \<and> height [\<lparr>value' = Fin 3, children = [(Fin 3, 1), (Fin 3, 1)], grad_value = None\<rparr>,
              \<lparr>value' = Fin 9, children = [], grad_value = Some (Fin 1)\<rparr>] 0 \<le> 2
   \<and> grad 2 0 [\<lparr>value' = Fin 3, children = [(Fin 3, 1), (Fin 3, 1)], grad_value = None\<rparr>,
              \<lparr>value' = Fin 9, children = [], grad_value = Some (Fin 1)\<rparr>]
     = Some (Fin 6, [\<lparr>value' = Fin 3, children = [(Fin 3, 1), (Fin 3, 1)], grad_value = Some (Fin 6)\<rparr>,
              \<lparr>value' = Fin 9, children = [], grad_value = Some (Fin 1)\<rparr>])
   \<and> grad 1 0 [\<lparr>value' = Fin 3, children = [(Fin 3, 1), (Fin 3, 1)], grad_value = Some (Fin 6)\<rparr>,
              \<lparr>value' = Fin 9, children = [], grad_value = Some (Fin 1)\<rparr>]
     = Some (Fin 6, [\<lparr>value' = Fin 3, children = [(Fin 3, 1), (Fin 3, 1)], grad_value = Some (Fin 6)\<rparr>,
              \<lparr>value' = Fin 9, children = [], grad_value = Some (Fin 1)\<rparr>])"
  using sq_reachable grad_twice [OF sq_reachable, of 0 2]
  by (simp add: height.simps numeral_2_eq_2 set_grad_value_def times_pyfloat_def
      plus_pyfloat_def zero_pyfloat_def)

section \<open>Properties that depend on the arithmetic of floats\<close>

subsection \<open>Gradients when no root is seeded\<close>

lemma finite_times_zero: "is_finite w \<Longrightarrow> w * 0 = (0::pyfloat)"
  by (cases w) (simp_all add: times_pyfloat_def zero_pyfloat_def)

lemma zero_plus_zero: "0 + 0 = (0::pyfloat)"
  by (simp add: plus_pyfloat_def zero_pyfloat_def)

lemma finite_weights_nth:
  "finite_weights h \<longleftrightarrow> (\<forall>i<length h. \<forall>(w, c)\<in>set (children (h ! i)). is_finite w)"
  by (simp add: finite_weights_def all_set_conv_all_nth)

lemma zero_caches_nth:
  "zero_caches h \<longleftrightarrow> (\<forall>i<length h. grad_value (h ! i) = None \<or> grad_value (h ! i) = Some 0)"
  by (simp add: zero_caches_def all_set_conv_all_nth)

lemma finite_weights_skeleton:
  assumes "map skeleton h' = map skeleton h"
  shows "finite_weights h' = finite_weights h"
proof -
  have len: "length h' = length h" using assms by (rule same_skeleton_length)
  have "children (h' ! i) = children (h ! i)" if "i < length h" for i
    using same_skeleton_nth [OF assms that] by simp
  then show ?thesis
    unfolding finite_weights_nth len by auto
qed

lemma zero_caches_set_grad_value:
  "zero_caches h \<Longrightarrow> zero_caches (set_grad_value n 0 h)"
  unfolding zero_caches_nth set_grad_value_def
proof (intro allI impI)
  fix i
  assume z: "\<forall>i<length h. grad_value (h ! i) = None \<or> grad_value (h ! i) = Some 0"
    and i: "i < length (h[n := (h ! n)\<lparr>grad_value := Some 0\<rparr>])"
  show "grad_value (h[n := (h ! n)\<lparr>grad_value := Some 0\<rparr>] ! i) = None
      \<or> grad_value (h[n := (h ! n)\<lparr>grad_value := Some 0\<rparr>] ! i) = Some 0"
  proof (cases "i = n")
    case True
    then show ?thesis using i by simp
  next
    case False
    then show ?thesis using z i by simp
  qed
qed

lemma sum_gen_zero:
  assumes g: "\<And>c h0 v h1. zero_caches h0 \<Longrightarrow> map skeleton h0 = map skeleton h \<Longrightarrow>
                g c h0 = Some (v, h1) \<Longrightarrow> v = 0 \<and> zero_caches h1 \<and> map skeleton h1 = map skeleton h"
  shows "zero_caches h2 \<Longrightarrow> map skeleton h2 = map skeleton h \<Longrightarrow>
         \<forall>(w, c)\<in>set es. is_finite w \<Longrightarrow>
         sum_gen g es 0 h2 = Some (s, h') \<Longrightarrow>
         s = 0 \<and> zero_caches h' \<and> map skeleton h' = map skeleton h"
proof (induction es arbitrary: h2)
  case Nil
  then show ?case by simp
next
  case (Cons e es)
  obtain w c where e: "e = (w, c)" by (cases e)
  from Cons.prems(4) e obtain gv h1 where
    call: "g c h2 = Some (gv, h1)" and rest: "sum_gen g es (0 + w * gv) h1 = Some (s, h')"
    by (auto split: option.splits)
  from g [OF Cons.prems(1,2) call] have
    gv: "gv = 0" and z1: "zero_caches h1" and sk1: "map skeleton h1 = map skeleton h"
    by simp_all
  have "is_finite w" using Cons.prems(3) e by simp
  then have "0 + w * gv = 0"
    using gv by (simp add: finite_times_zero zero_plus_zero)
  with rest have rest0: "sum_gen g es 0 h1 = Some (s, h')" by simp
  have "\<forall>(w, c)\<in>set es. is_finite w" using Cons.prems(3) by simp
  from Cons.IH [OF z1 sk1 this rest0] show ?case .
qed

lemma grad_zero:
  "finite_weights h \<Longrightarrow> zero_caches h \<Longrightarrow> grad k n h = Some (v, h')
   \<Longrightarrow> v = 0 \<and> zero_caches h'"
proof (induction k arbitrary: n h v h')
  case 0
  then show ?case by simp
next
  case (Suc k)
  from Suc.prems(3) have n: "n < length h" by (auto split: if_splits)
  show ?case
  proof (cases "grad_value (h ! n)")
    case (Some g)
    with Suc.prems(3) n have "v = g" "h' = h" by simp_all
    moreover have "g = 0"
      using Suc.prems(2) Some n by (auto simp: zero_caches_nth)
    ultimately show ?thesis using Suc.prems(2) by simp
  next
    case None
    with Suc.prems(3) n obtain h1 where
      loop: "sum_gen (grad k) (children (h ! n)) 0 h = Some (v, h1)"
      and h': "h' = set_grad_value n v h1"
      by (auto split: option.splits)
    have fin: "\<forall>(w, c)\<in>set (children (h ! n)). is_finite w"
      using Suc.prems(1) n by (simp add: finite_weights_nth)
    have "v = 0 \<and> zero_caches h1 \<and> map skeleton h1 = map skeleton h"
    proof (rule sum_gen_zero [OF _ Suc.prems(2) refl fin loop])
      fix c and h0 h2 :: "pyfloat heap" and v0
      assume z0: "zero_caches h0" and sk: "map skeleton h0 = map skeleton h"
        and call: "grad k c h0 = Some (v0, h2)"
      have "finite_weights h0"
        using Suc.prems(1) finite_weights_skeleton [OF sk] by simp
      from Suc.IH [OF this z0 call] have "v0 = 0" "zero_caches h2" by simp_all
      moreover have "map skeleton h2 = map skeleton h"
        using grad_grows [OF call] sk by (simp add: cache_grows_def)
      ultimately show "v0 = 0 \<and> zero_caches h2 \<and> map skeleton h2 = map skeleton h"
        by simp
    qed
    then show ?thesis using h' by (simp add: zero_caches_set_grad_value)
  qed
qed

lemma forward_step_finite_weights:
  assumes step: "forward_step h h'" and fin: "finite_weights h'"
  shows "finite_weights h"
  unfolding finite_weights_nth
proof (intro allI impI ballI, clarify)
  fix i w c
  assume i: "i < length h" and e: "(w, c) \<in> set (children (h ! i))"
  from forward_step_shape(3) [OF step i] obtain ws where
    "children (h' ! i) = children (h ! i) @ map (\<lambda>w. (w, length h)) ws" by blast
  with e have "(w, c) \<in> set (children (h' ! i))" by simp
  moreover have "i < length h'" using i forward_step_shape(1) [OF step] by simp
  ultimately show "is_finite w" using fin by (auto simp: finite_weights_nth)
qed

lemma forward_step_zero_caches:
  assumes step: "forward_step h h'" and z: "zero_caches h"
  shows "zero_caches h'"
  unfolding zero_caches_nth
proof (intro allI impI)
  fix i assume i: "i < length h'"
  show "grad_value (h' ! i) = None \<or> grad_value (h' ! i) = Some 0"
  proof (cases "i < length h")
    case True
    with forward_step_shape(3) [OF step True] z show ?thesis
      by (auto simp: zero_caches_nth)
  next
    case False
    with i forward_step_shape(1) [OF step] have "i = length h" by simp
    with forward_step_shape(2) [OF step] show ?thesis by simp
  qed
qed

lemma unseeded_zero_caches:
  "unseeded h \<Longrightarrow> finite_weights h \<Longrightarrow> zero_caches h"
proof (induction rule: unseeded.induct)
  case empty
  show ?case by (simp add: zero_caches_def)
next
  case (forward h h')
  have "finite_weights h"
    using forward.hyps(2) forward.prems by (rule forward_step_finite_weights)
  then have "zero_caches h" by (rule forward.IH)
  with forward.hyps(2) show ?case by (rule forward_step_zero_caches)
next
  case (grad h k n v h')
  have sk: "map skeleton h' = map skeleton h"
    using grad_grows [OF grad.hyps(2)] by (simp add: cache_grows_def)
  have fin: "finite_weights h"
    using grad.prems finite_weights_skeleton [OF sk] by simp
  then have "zero_caches h" by (rule grad.IH)
  from grad_zero [OF fin this grad.hyps(2)] show ?case by simp
qed

lemma inf_sq_built:
  "built [\<lparr>value' = PInf, children = [(PInf, 1), (PInf, 1)], grad_value = None\<rparr>,
          \<lparr>value' = PInf, children = [], grad_value = None\<rparr>]"
proof -
  have "built (snd (Var PInf []))"
    by (rule built.forward [OF built.empty forward_step.leaf])
  then have "built (snd (Var_mul 0 0 (snd (Var PInf []))))"
    by (rule built.forward) (rule forward_step.mul, simp_all add: Var_def)
  then show ?thesis
    by (simp add: Var_mul_def Var_def append_child_def times_pyfloat_def)
qed

lemma inf_mul_unseeded:
  "unseeded [\<lparr>value' = PInf, children = [(Fin 2, 2)], grad_value = None\<rparr>,
             \<lparr>value' = Fin 2, children = [(PInf, 2)], grad_value = None\<rparr>,
             \<lparr>value' = PInf, children = [], grad_value = None\<rparr>]"
proof -
  have "built (snd (Var PInf []))"
    by (rule built.forward [OF built.empty forward_step.leaf])
  then have "built (snd (Var (Fin 2) (snd (Var PInf []))))"
    by (rule built.forward) (rule forward_step.leaf)
  then have "built (snd (Var_mul 0 1 (snd (Var (Fin 2) (snd (Var PInf []))))))"
    by (rule built.forward) (rule forward_step.mul, simp_all add: Var_def)
  then have "unseeded (snd (Var_mul 0 1 (snd (Var (Fin 2) (snd (Var PInf []))))))"
    by (rule built_unseeded)
  then show ?thesis
    by (simp add: Var_mul_def Var_def append_child_def times_pyfloat_def numeral_2_eq_2)
qed

lemma seed_root_other:
  "z \<noteq> n \<Longrightarrow> grad_value (seed_root z h ! n) = grad_value (h ! n)"
  by (simp add: seed_root_def set_grad_value_def)

lemma length_seed_root: "length (seed_root z h) = length h"
  by (simp add: seed_root_def set_grad_value_def)

text \<open>
  Claim C9, as amended. In a heap that the forward operations and calls of \<open>grad\<close> have
  built, with no node ever seeded, and in which every recorded weight is a finite float,
  \<open>grad(n)\<close> returns 0 for every node \<open>n\<close>, and the heap it leaves is again of this kind.
\<close>

theorem grad_unseeded_zero:
  assumes "unseeded h" and "finite_weights h" and "n < length h" and "height h n \<le> k"
  shows "\<exists>h'. grad k n h = Some (0, h') \<and> unseeded h' \<and> finite_weights h'"
proof -
  have fe: "forward_edges h"
    using assms(1) by (simp add: unseeded_reachable reachable_forward_edges)
  from grad_returns [OF fe assms(3,4)] obtain v h' where r: "grad k n h = Some (v, h')"
    by blast
  have "v = 0"
    using grad_zero [OF assms(2) unseeded_zero_caches [OF assms(1,2)] r] by simp
  moreover have "unseeded h'"
    using assms(1) r by (rule unseeded.grad)
  moreover have "finite_weights h'"
    using assms(2) finite_weights_skeleton [of h' h] grad_grows [OF r]
    by (simp add: cache_grows_def)
  ultimately show ?thesis using r by blast
qed

theorem grad_unseeded_zero_witness:
  "unseeded [\<lparr>value' = Fin 3, children = [(Fin 3, 1), (Fin 3, 1)], grad_value = None\<rparr>,
             \<lparr>value' = Fin 9, children = [], grad_value = None\<rparr>]
   \<and> finite_weights [\<lparr>value' = Fin 3, children = [(Fin 3, 1), (Fin 3, 1)], grad_value = None\<rparr>,
             \<lparr>value' = Fin 9, children = [], grad_value = None\<rparr>]
   \<and> (0::nat) < length [\<lparr>value' = Fin 3, children = [(Fin 3, 1), (Fin 3, 1)], grad_value = None\<rparr>,
             \<lparr>value' = Fin 9, children = [], grad_value = None\<rparr>]
   \<and> height [\<lparr>value' = Fin 3, children = [(Fin 3, 1), (Fin 3, 1)], grad_value = None\<rparr>,
             \<lparr>value' = Fin 9, children = [], grad_value = None\<rparr>] 0 \<le> 2
   \<and> grad 2 0 [\<lparr>value' = Fin 3, children = [(Fin 3, 1), (Fin 3, 1)], grad_value = None\<rparr>,
             \<lparr>value' = Fin 9, children = [], grad_value = None\<rparr>]
     = Some (0, [\<lparr>value' = Fin 3, children = [(Fin 3, 1), (Fin 3, 1)], grad_value = Some 0\<rparr>,
             \<lparr>value' = Fin 9, children = [], grad_value = Some 0\<rparr>])"
  using built_unseeded [OF sq_built]
    grad_unseeded_zero [OF built_unseeded [OF sq_built], of 0 2]
  by (simp add: height.simps numeral_2_eq_2 set_grad_value_def times_pyfloat_def
      plus_pyfloat_def zero_pyfloat_def finite_weights_def)

text \<open>
  The claim as stated, for every graph, fails: with \<open>x = Var(inf)\<close> and \<open>y = x * x\<close> the
  two edges of \<open>x\<close> have the weight \<open>inf\<close>, \<open>grad(y)\<close> is the empty sum 0, and \<open>grad(x)\<close> is
  \<open>0 + inf * 0 + inf * 0\<close>, which is NaN.
\<close>

theorem grad_unseeded_zero_counterexample:
  "snd (Var_mul 0 0 (snd (Var PInf []))) =
     [\<lparr>value' = PInf, children = [(PInf, 1), (PInf, 1)], grad_value = None\<rparr>,
      \<lparr>value' = PInf, children = [], grad_value = None\<rparr>]
   \<and> built [\<lparr>value' = PInf, children = [(PInf, 1), (PInf, 1)], grad_value = None\<rparr>,
            \<lparr>value' = PInf, children = [], grad_value = None\<rparr>]
   \<and> grad 2 0 [\<lparr>value' = PInf, children = [(PInf, 1), (PInf, 1)], grad_value = None\<rparr>,
               \<lparr>value' = PInf, children = [], grad_value = None\<rparr>]
     = Some (NaN, [\<lparr>value' = PInf, children = [(PInf, 1), (PInf, 1)], grad_value = Some NaN\<rparr>,
                   \<lparr>value' = PInf, children = [], grad_value = Some 0\<rparr>])
   \<and> NaN \<noteq> (0::pyfloat)"
  using inf_sq_built
  by (simp add: Var_mul_def Var_def append_child_def numeral_2_eq_2 set_grad_value_def
      times_pyfloat_def plus_pyfloat_def zero_pyfloat_def)

subsection \<open>Stale caches\<close>

text \<open>
  Claim C10, as amended. No call of \<open>grad\<close> changes a cache that is set. If \<open>grad(n)\<close> is
  called when no root has been seeded, it returns a value \<open>v\<close>, which is 0 when every
  recorded weight is finite, and caches it; after seeding a root other than \<open>n\<close>, every
  further call of \<open>grad(n)\<close> returns that same \<open>v\<close> and changes nothing.
\<close>

theorem grad_stale:
  fixes h :: "pyfloat heap"
  assumes "unseeded h" and "n < length h" and "height h n \<le> k" and "z < length h" and "z \<noteq> n"
  shows "(\<forall>(h0 :: pyfloat heap) i g j m r h2.
            i < length h0 \<and> grad_value (h0 ! i) = Some g \<and> grad j m h0 = Some (r, h2)
            \<longrightarrow> grad_value (h2 ! i) = Some g)
       \<and> (\<exists>v h1. grad k n h = Some (v, h1)
             \<and> (finite_weights h \<longrightarrow> v = 0)
             \<and> grad_value (h1 ! n) = Some v
             \<and> (\<forall>j. grad (Suc j) n (seed_root z h1) = Some (v, seed_root z h1)))"
proof (rule conjI)
  show "\<forall>(h0 :: pyfloat heap) i g j m r h2.
            i < length h0 \<and> grad_value (h0 ! i) = Some g \<and> grad j m h0 = Some (r, h2)
            \<longrightarrow> grad_value (h2 ! i) = Some g"
  proof (intro allI impI, elim conjE)
    fix h0 h2 :: "pyfloat heap" and i g j m r
    assume "i < length h0" "grad_value (h0 ! i) = Some g" "grad j m h0 = Some (r, h2)"
    then show "grad_value (h2 ! i) = Some g"
      using grad_grows [of j m h0 r h2] by (simp add: cache_grows_def)
  qed
next
  have fe: "forward_edges h"
    using assms(1) by (simp add: unseeded_reachable reachable_forward_edges)
  from grad_returns [OF fe assms(2,3)] obtain v h1 where r: "grad k n h = Some (v, h1)"
    by blast
  have len: "length h1 = length h"
    using grad_grows [OF r] by (rule cache_grows_length)
  have cached: "grad_value (h1 ! n) = Some v"
    using grad_caches [OF r] by simp
  have zero: "finite_weights h \<longrightarrow> v = 0"
    using grad_zero [OF _ unseeded_zero_caches [OF assms(1)] r] by simp
  have "grad (Suc j) n (seed_root z h1) = Some (v, seed_root z h1)" for j
    using cached assms(2,5) len by (simp add: seed_root_other length_seed_root)
  with r zero cached show "\<exists>v h1. grad k n h = Some (v, h1)
             \<and> (finite_weights h \<longrightarrow> v = 0)
             \<and> grad_value (h1 ! n) = Some v
             \<and> (\<forall>j. grad (Suc j) n (seed_root z h1) = Some (v, seed_root z h1))"
    by blast
qed

theorem grad_stale_witness:
  "unseeded [\<lparr>value' = Fin 3, children = [(Fin 3, 1), (Fin 3, 1)], grad_value = None\<rparr>,
             \<lparr>value' = Fin 9, children = [], grad_value = None\<rparr>]
   \<and> (0::nat) < length [\<lparr>value' = Fin 3, children = [(Fin 3, 1), (Fin 3, 1)], grad_value = None\<rparr>,
             \<lparr>value' = Fin 9, children = [], grad_value = None\<rparr>]
   \<and> height [\<lparr>value' = Fin 3, children = [(Fin 3, 1), (Fin 3, 1)], grad_value = None\<rparr>,
             \<lparr>value' = Fin 9, children = [], grad_value = None\<rparr>] 0 \<le> 2
   \<and> (1::nat) < length [\<lparr>value' = Fin 3, children = [(Fin 3, 1), (Fin 3, 1)], grad_value = None\<rparr>,
             \<lparr>value' = Fin 9, children = [], grad_value = None\<rparr>]
   \<and> (1::nat) \<noteq> 0
   \<and> finite_weights [\<lparr>value' = Fin 3, children = [(Fin 3, 1), (Fin 3, 1)], grad_value = None\<rparr>,
             \<lparr>value' = Fin 9, children = [], grad_value = None\<rparr>]
   \<and> grad 2 0 [\<lparr>value' = Fin 3, children = [(Fin 3, 1), (Fin 3, 1)], grad_value = None\<rparr>,
             \<lparr>value' = Fin 9, children = [], grad_value = None\<rparr>]
     = Some (Fin 0, [\<lparr>value' = Fin 3, children = [(Fin 3, 1), (Fin 3, 1)], grad_value = Some (Fin 0)\<rparr>,
             \<lparr>value' = Fin 9, children = [], grad_value = Some (Fin 0)\<rparr>])
   \<and> seed_root 1 [\<lparr>value' = Fin 3, children = [(Fin 3, 1), (Fin 3, 1)], grad_value = Some (Fin 0)\<rparr>,
             \<lparr>value' = Fin 9, children = [], grad_value = Some (Fin 0)\<rparr>]
     = [\<lparr>value' = Fin 3, children = [(Fin 3, 1), (Fin 3, 1)], grad_value = Some (Fin 0)\<rparr>,
        \<lparr>value' = Fin 9, children = [], grad_value = Some (Fin 1)\<rparr>]
   \<and> grad 2 0 [\<lparr>value' = Fin 3, children = [(Fin 3, 1), (Fin 3, 1)], grad_value = Some (Fin 0)\<rparr>,
        \<lparr>value' = Fin 9, children = [], grad_value = Some (Fin 1)\<rparr>]
     = Some (Fin 0, [\<lparr>value' = Fin 3, children = [(Fin 3, 1), (Fin 3, 1)], grad_value = Some (Fin 0)\<rparr>,
        \<lparr>value' = Fin 9, children = [], grad_value = Some (Fin 1)\<rparr>])
   \<and> grad 2 0 (seed_root 1 [\<lparr>value' = Fin 3, children = [(Fin 3, 1), (Fin 3, 1)], grad_value = None\<rparr>,
             \<lparr>value' = Fin 9, children = [], grad_value = None\<rparr>])
     = Some (Fin 6, [\<lparr>value' = Fin 3, children = [(Fin 3, 1), (Fin 3, 1)], grad_value = Some (Fin 6)\<rparr>,
        \<lparr>value' = Fin 9, children = [], grad_value = Some (Fin 1)\<rparr>])"
  using built_unseeded [OF sq_built]
    grad_stale [OF built_unseeded [OF sq_built], of 0 2 1]
  by (simp add: height.simps numeral_2_eq_2 set_grad_value_def seed_root_def times_pyfloat_def
      plus_pyfloat_def zero_pyfloat_def one_pyfloat_def finite_weights_def)

text \<open>
  The claim as stated, with the stale value 0 in every graph, fails: with \<open>x = Var(inf)\<close>,
  \<open>y = Var(2.0)\<close> and \<open>z = x * y\<close>, the call \<open>grad(y)\<close> before seeding returns and caches
  \<open>0 + inf * 0\<close>, which is NaN, and after \<open>z\<close> is seeded \<open>grad(y)\<close> still returns NaN.
\<close>

theorem grad_stale_counterexample:
  "snd (Var_mul 0 1 (snd (Var (Fin 2) (snd (Var PInf []))))) =
     [\<lparr>value' = PInf, children = [(Fin 2, 2)], grad_value = None\<rparr>,
      \<lparr>value' = Fin 2, children = [(PInf, 2)], grad_value = None\<rparr>,
      \<lparr>value' = PInf, children = [], grad_value = None\<rparr>]
   \<and> unseeded [\<lparr>value' = PInf, children = [(Fin 2, 2)], grad_value = None\<rparr>,
      \<lparr>value' = Fin 2, children = [(PInf, 2)], grad_value = None\<rparr>,
      \<lparr>value' = PInf, children = [], grad_value = None\<rparr>]
   \<and> grad 2 1 [\<lparr>value' = PInf, children = [(Fin 2, 2)], grad_value = None\<rparr>,
      \<lparr>value' = Fin 2, children = [(PInf, 2)], grad_value = None\<rparr>,
      \<lparr>value' = PInf, children = [], grad_value = None\<rparr>]
     = Some (NaN, [\<lparr>value' = PInf, children = [(Fin 2, 2)], grad_value = None\<rparr>,
      \<lparr>value' = Fin 2, children = [(PInf, 2)], grad_value = Some NaN\<rparr>,
      \<lparr>value' = PInf, children = [], grad_value = Some 0\<rparr>])
   \<and> grad 2 1 (seed_root 2 [\<lparr>value' = PInf, children = [(Fin 2, 2)], grad_value = None\<rparr>,
      \<lparr>value' = Fin 2, children = [(PInf, 2)], grad_value = Some NaN\<rparr>,
      \<lparr>value' = PInf, children = [], grad_value = Some 0\<rparr>])
     = Some (NaN, [\<lparr>value' = PInf, children = [(Fin 2, 2)], grad_value = None\<rparr>,
      \<lparr>value' = Fin 2, children = [(PInf, 2)], grad_value = Some NaN\<rparr>,
      \<lparr>value' = PInf, children = [], grad_value = Some 1\<rparr>])
   \<and> NaN \<noteq> (0::pyfloat)"
  using inf_mul_unseeded
  by (simp add: Var_mul_def Var_def append_child_def numeral_2_eq_2 set_grad_value_def seed_root_def
      times_pyfloat_def plus_pyfloat_def zero_pyfloat_def)

subsection \<open>A node used twice by one product\<close>

lemma overflow_threshold_pos: "0 < overflow_threshold"
  using overflow_threshold_large by simp

lemma double_pyfloat: "(0 + v * 1) + v * 1 = Fin 2 * (v::pyfloat)"
proof (cases v)
  case (Fin x)
  consider "overflow_threshold \<le> x" | "x \<le> - overflow_threshold"
    | "\<not> overflow_threshold \<le> x" "\<not> x \<le> - overflow_threshold"
    by blast
  then show ?thesis
  proof cases
    case 1
    then have "overflow_threshold \<le> 2 * x" using overflow_threshold_pos by linarith
    with 1 Fin show ?thesis
      by (simp add: times_pyfloat_def plus_pyfloat_def zero_pyfloat_def one_pyfloat_def
          finite_result_def)
  next
    case 2
    then have a: "\<not> overflow_threshold \<le> x" "\<not> overflow_threshold \<le> 2 * x"
      and b: "2 * x \<le> - overflow_threshold"
      using overflow_threshold_pos by linarith+
    with 2 Fin show ?thesis
      by (simp add: times_pyfloat_def plus_pyfloat_def zero_pyfloat_def one_pyfloat_def
          finite_result_def)
  next
    case 3
    with Fin show ?thesis
      by (simp add: times_pyfloat_def plus_pyfloat_def zero_pyfloat_def one_pyfloat_def
          finite_result_def)
  qed
qed (simp_all add: times_pyfloat_def plus_pyfloat_def zero_pyfloat_def one_pyfloat_def)

lemma within_tol_refl: "is_finite a \<Longrightarrow> 0 \<le> tol \<Longrightarrow> within_tol a a tol"
  by (cases a) simp_all

text \<open>
  Claim C4, as amended. Let \<open>x\<close> be a node with no edge and no cached gradient, of any
  value, in any heap. After \<open>y = x * x\<close> the node \<open>x\<close> has two edges to \<open>y\<close>, each of weight
  \<open>x.value\<close>; after seeding \<open>y\<close>, \<open>grad(x)\<close> returns with depth 2 the sum of both edges'
  contributions, \<open>0 + x.value * 1.0 + x.value * 1.0\<close>, which is the float \<open>2 * x.value\<close>,
  and caches it. When \<open>2 * x.value\<close> is a finite float (no overflow, and \<open>x.value\<close> neither
  infinite nor NaN), the result is within \<open>1e-12\<close> of it by the test of the script.
\<close>

theorem mul_self_grad:
  fixes h :: "pyfloat heap"
  assumes "x < length h" and "children (h ! x) = []" and "grad_value (h ! x) = None"
  shows "case Var_mul x x h of (y, h1) \<Rightarrow>
           children (h1 ! x) = [(value' (h ! x), y), (value' (h ! x), y)]
         \<and> (\<exists>g h3. grad (Suc (Suc k)) x (seed_root y h1) = Some (g, h3)
               \<and> g = weighted_sum [(value' (h ! x), 1), (value' (h ! x), 1)]
               \<and> g = Fin 2 * value' (h ! x)
               \<and> (is_finite (Fin 2 * value' (h ! x)) \<longrightarrow>
                    within_tol g (Fin 2 * value' (h ! x)) (1 / 10 ^ 12))
               \<and> grad_value (h3 ! x) = Some g)"
proof -
  let ?v = "value' (h ! x)"
  let ?y = "length h"
  let ?h1 = "snd (Var_mul x x h)"
  let ?h2 = "seed_root ?y ?h1"
  have len1: "length ?h1 = Suc (length h)" by (rule Var_mul_length)
  have x1: "?h1 ! x = (h ! x)\<lparr>children := [(?v, ?y), (?v, ?y)]\<rparr>"
    using Var_mul_old [OF assms(1) assms(1) assms(1)] assms(2) by simp
  have len2: "length ?h2 = Suc (length h)"
    using len1 by (simp add: seed_root_def set_grad_value_def)
  have x2: "?h2 ! x = (h ! x)\<lparr>children := [(?v, ?y), (?v, ?y)]\<rparr>"
    using x1 assms(1) len1 by (simp add: seed_root_def set_grad_value_def)
  have y2: "grad_value (?h2 ! ?y) = Some 1"
    using len1 by (simp add: seed_root_def set_grad_value_def)
  have gy: "grad (Suc k) ?y ?h2 = Some (1, ?h2)"
    using y2 len2 by simp
  have loop: "sum_gen (grad (Suc k)) [(?v, ?y), (?v, ?y)] 0 ?h2 = Some ((0 + ?v * 1) + ?v * 1, ?h2)"
    using gy by simp
  have g: "grad (Suc (Suc k)) x ?h2
             = Some ((0 + ?v * 1) + ?v * 1, set_grad_value x ((0 + ?v * 1) + ?v * 1) ?h2)"
    using loop x2 assms(1,3) len2 by (simp del: sum_gen.simps grad.simps(2) add: grad.simps(2) [of "Suc k"])
  have cache: "grad_value (set_grad_value x ((0 + ?v * 1) + ?v * 1) ?h2 ! x) = Some ((0 + ?v * 1) + ?v * 1)"
    using assms(1) len2 by (simp add: set_grad_value_def)
  have ws: "weighted_sum [(?v, 1), (?v, 1)] = (0 + ?v * 1) + ?v * 1"
    by (simp add: weighted_sum_def)
  have tol: "is_finite (Fin 2 * ?v) \<longrightarrow> within_tol (Fin 2 * ?v) (Fin 2 * ?v) (1 / 10 ^ 12)"
    by (simp add: within_tol_refl)
  have ch: "children (?h1 ! x) = [(?v, ?y), (?v, ?y)]"
    using x1 by simp
  have "\<exists>g h3. grad (Suc (Suc k)) x ?h2 = Some (g, h3)
               \<and> g = weighted_sum [(?v, 1), (?v, 1)]
               \<and> g = Fin 2 * ?v
               \<and> (is_finite (Fin 2 * ?v) \<longrightarrow> within_tol g (Fin 2 * ?v) (1 / 10 ^ 12))
               \<and> grad_value (h3 ! x) = Some g"
  proof (intro exI conjI)
    show "grad (Suc (Suc k)) x ?h2 = Some (Fin 2 * ?v, set_grad_value x (Fin 2 * ?v) ?h2)"
      by (rule g [unfolded double_pyfloat])
    show "Fin 2 * ?v = weighted_sum [(?v, 1), (?v, 1)]"
      by (rule ws [unfolded double_pyfloat, symmetric])
    show "Fin 2 * ?v = Fin 2 * ?v" by (rule refl)
    show "is_finite (Fin 2 * ?v) \<longrightarrow> within_tol (Fin 2 * ?v) (Fin 2 * ?v) (1 / 10 ^ 12)"
      by (rule tol)
    show "grad_value (set_grad_value x (Fin 2 * ?v) ?h2 ! x) = Some (Fin 2 * ?v)"
      by (rule cache [unfolded double_pyfloat])
  qed
  with ch show ?thesis
    unfolding case_prod_beta Var_mul_fst by (rule conjI)
qed

theorem mul_self_grad_witness:
  "(0::nat) < length [\<lparr>value' = Fin 3, children = [], grad_value = None\<rparr>]
   \<and> children ([\<lparr>value' = Fin 3, children = [], grad_value = None\<rparr>] ! 0) = []
   \<and> grad_value ([\<lparr>value' = Fin 3, children = [], grad_value = None\<rparr>] ! 0) = None
   \<and> Var_mul 0 0 [\<lparr>value' = Fin 3, children = [], grad_value = None\<rparr>]
       = (1, [\<lparr>value' = Fin 3, children = [(Fin 3, 1), (Fin 3, 1)], grad_value = None\<rparr>,
              \<lparr>value' = Fin 9, children = [], grad_value = None\<rparr>])
   \<and> grad 2 0 (seed_root 1 [\<lparr>value' = Fin 3, children = [(Fin 3, 1), (Fin 3, 1)], grad_value = None\<rparr>,
              \<lparr>value' = Fin 9, children = [], grad_value = None\<rparr>])
       = Some (Fin 6, [\<lparr>value' = Fin 3, children = [(Fin 3, 1), (Fin 3, 1)], grad_value = Some (Fin 6)\<rparr>,
              \<lparr>value' = Fin 9, children = [], grad_value = Some (Fin 1)\<rparr>])
   \<and> is_finite (Fin 2 * Fin 3)
   \<and> within_tol (Fin 6) (Fin 2 * Fin 3) (1 / 10 ^ 12)"
proof -
  have mul: "Var_mul 0 0 [\<lparr>value' = Fin 3, children = [], grad_value = None\<rparr>]
       = (1, [\<lparr>value' = Fin 3, children = [(Fin 3, 1), (Fin 3, 1)], grad_value = None\<rparr>,
              \<lparr>value' = Fin 9, children = [], grad_value = None\<rparr>])"
    by (simp add: Var_mul_def Var_def append_child_def times_pyfloat_def)
  have "case Var_mul 0 0 [\<lparr>value' = Fin 3, children = [], grad_value = None\<rparr>] of (y, h1) \<Rightarrow>
           children (h1 ! 0) = [(value' ([\<lparr>value' = Fin 3, children = [], grad_value = None\<rparr>] ! 0), y),
                                (value' ([\<lparr>value' = Fin 3, children = [], grad_value = None\<rparr>] ! 0), y)]
         \<and> (\<exists>g h3. grad (Suc (Suc 0)) 0 (seed_root y h1) = Some (g, h3)
               \<and> g = weighted_sum [(value' ([\<lparr>value' = Fin 3, children = [], grad_value = None\<rparr>] ! 0), 1),
                                     (value' ([\<lparr>value' = Fin 3, children = [], grad_value = None\<rparr>] ! 0), 1)]
               \<and> g = Fin 2 * value' ([\<lparr>value' = Fin 3, children = [], grad_value = None\<rparr>] ! 0)
               \<and> (is_finite (Fin 2 * value' ([\<lparr>value' = Fin 3, children = [], grad_value = None\<rparr>] ! 0)) \<longrightarrow>
                    within_tol g (Fin 2 * value' ([\<lparr>value' = Fin 3, children = [], grad_value = None\<rparr>] ! 0)) (1 / 10 ^ 12))
               \<and> grad_value (h3 ! 0) = Some g)"
    by (rule mul_self_grad) simp_all
  then obtain g h3 where
    r: "grad (Suc (Suc 0)) 0 (seed_root 1 [\<lparr>value' = Fin 3, children = [(Fin 3, 1), (Fin 3, 1)], grad_value = None\<rparr>,
              \<lparr>value' = Fin 9, children = [], grad_value = None\<rparr>]) = Some (g, h3)"
    and g: "g = Fin 2 * Fin 3"
    and tol: "within_tol g (Fin 2 * Fin 3) (1 / 10 ^ 12)"
    unfolding mul prod.case by (auto simp: times_pyfloat_def)
  have "grad (Suc (Suc 0)) 0 (seed_root 1 [\<lparr>value' = Fin 3, children = [(Fin 3, 1), (Fin 3, 1)], grad_value = None\<rparr>,
              \<lparr>value' = Fin 9, children = [], grad_value = None\<rparr>])
       = Some (Fin 6, [\<lparr>value' = Fin 3, children = [(Fin 3, 1), (Fin 3, 1)], grad_value = Some (Fin 6)\<rparr>,
              \<lparr>value' = Fin 9, children = [], grad_value = Some (Fin 1)\<rparr>])"
    by (simp add: seed_root_def set_grad_value_def
        times_pyfloat_def plus_pyfloat_def zero_pyfloat_def one_pyfloat_def)
  moreover have "g = Fin 6" using g by (simp add: times_pyfloat_def)
  moreover have "is_finite (Fin 2 * Fin 3)" by (simp add: times_pyfloat_def)
  ultimately show ?thesis
    using mul tol by (simp add: numeral_2_eq_2)
qed

text \<open>
  The claim as stated, for every node, fails in three ways. With \<open>x = Var(2.0**1023)\<close>, a
  finite float, the sum of the two contributions overflows: \<open>grad(x)\<close> and \<open>2 * x.value\<close> are
  both \<open>inf\<close>, and the test \<open>abs(inf - inf) <= 1e-12\<close> is false. With \<open>x = Var(3.0)\<close> and a
  call \<open>x.grad()\<close> before \<open>y = x * x\<close>, the cache of \<open>x\<close> holds 0, and \<open>grad(x)\<close> after
  seeding \<open>y\<close> is still 0, not 6. With \<open>x = Var(3.0)\<close>, \<open>w = x + x\<close> seeded and then
  \<open>y = x * x\<close> seeded, \<open>grad(x)\<close> is \<open>1 + 1 + 3 + 3 = 8\<close>, not 6.
\<close>

theorem mul_self_grad_counterexample:
  "Var_mul 0 0 [\<lparr>value' = Fin (2 ^ 1023), children = [], grad_value = None\<rparr>]
     = (1, [\<lparr>value' = Fin (2 ^ 1023), children = [(Fin (2 ^ 1023), 1), (Fin (2 ^ 1023), 1)],
              grad_value = None\<rparr>,
            \<lparr>value' = PInf, children = [], grad_value = None\<rparr>])
   \<and> grad 2 0 (seed_root 1
         [\<lparr>value' = Fin (2 ^ 1023), children = [(Fin (2 ^ 1023), 1), (Fin (2 ^ 1023), 1)],
             grad_value = None\<rparr>,
          \<lparr>value' = PInf, children = [], grad_value = None\<rparr>])
     = Some (PInf,
         [\<lparr>value' = Fin (2 ^ 1023), children = [(Fin (2 ^ 1023), 1), (Fin (2 ^ 1023), 1)],
             grad_value = Some PInf\<rparr>,
          \<lparr>value' = PInf, children = [], grad_value = Some 1\<rparr>])
   \<and> Fin 2 * Fin (2 ^ 1023) = PInf
   \<and> \<not> within_tol PInf (Fin 2 * Fin (2 ^ 1023)) (1 / 10 ^ 12)
   \<and> grad 1 0 [\<lparr>value' = Fin 3, children = [], grad_value = None\<rparr>]
     = Some (0, [\<lparr>value' = Fin 3, children = [], grad_value = Some 0\<rparr>])
   \<and> Var_mul 0 0 [\<lparr>value' = Fin 3, children = [], grad_value = Some 0\<rparr>]
     = (1, [\<lparr>value' = Fin 3, children = [(Fin 3, 1), (Fin 3, 1)], grad_value = Some 0\<rparr>,
            \<lparr>value' = Fin 9, children = [], grad_value = None\<rparr>])
   \<and> grad 2 0 (seed_root 1
         [\<lparr>value' = Fin 3, children = [(Fin 3, 1), (Fin 3, 1)], grad_value = Some 0\<rparr>,
          \<lparr>value' = Fin 9, children = [], grad_value = None\<rparr>])
     = Some (0,
         [\<lparr>value' = Fin 3, children = [(Fin 3, 1), (Fin 3, 1)], grad_value = Some 0\<rparr>,
          \<lparr>value' = Fin 9, children = [], grad_value = Some 1\<rparr>])
   \<and> \<not> within_tol 0 (Fin 2 * Fin 3) (1 / 10 ^ 12)
   \<and> seed_root 1 (snd (Var_add 0 0 [\<lparr>value' = Fin 3, children = [], grad_value = None\<rparr>]))
     = [\<lparr>value' = Fin 3, children = [(1, 1), (1, 1)], grad_value = None\<rparr>,
        \<lparr>value' = Fin 6, children = [], grad_value = Some 1\<rparr>]
   \<and> Var_mul 0 0 [\<lparr>value' = Fin 3, children = [(1, 1), (1, 1)], grad_value = None\<rparr>,
                   \<lparr>value' = Fin 6, children = [], grad_value = Some 1\<rparr>]
     = (2, [\<lparr>value' = Fin 3, children = [(1, 1), (1, 1), (Fin 3, 2), (Fin 3, 2)], grad_value = None\<rparr>,
            \<lparr>value' = Fin 6, children = [], grad_value = Some 1\<rparr>,
            \<lparr>value' = Fin 9, children = [], grad_value = None\<rparr>])
   \<and> grad 2 0 (seed_root 2
         [\<lparr>value' = Fin 3, children = [(1, 1), (1, 1), (Fin 3, 2), (Fin 3, 2)], grad_value = None\<rparr>,
          \<lparr>value' = Fin 6, children = [], grad_value = Some 1\<rparr>,
          \<lparr>value' = Fin 9, children = [], grad_value = None\<rparr>])
     = Some (Fin 8,
         [\<lparr>value' = Fin 3, children = [(1, 1), (1, 1), (Fin 3, 2), (Fin 3, 2)], grad_value = Some (Fin 8)\<rparr>,
          \<lparr>value' = Fin 6, children = [], grad_value = Some 1\<rparr>,
          \<lparr>value' = Fin 9, children = [], grad_value = Some 1\<rparr>])
   \<and> \<not> within_tol (Fin 8) (Fin 2 * Fin 3) (1 / 10 ^ 12)"
  by (simp add: Var_mul_def Var_add_def Var_def append_child_def seed_root_def numeral_2_eq_2
      set_grad_value_def times_pyfloat_def plus_pyfloat_def zero_pyfloat_def one_pyfloat_def
      finite_result_def overflow_threshold_def)

subsection \<open>The reference scenario\<close>

lemma sin_half_close: "\<bar>sin (1 / 2 :: real) - 479425538604203 / 10 ^ 15\<bar> \<le> 1 / 10 ^ 13"
proof -
  define S :: real where
    "S = 1 / 2 - 1 / 48 + 1 / 3840 - 1 / 645120 + 1 / 185794560 - 1 / 81749606400 + 1 / 51011754393600"
  define E :: real where "E = inverse (fact 14) * \<bar>1 / 2\<bar> ^ 14"
  have s: "(\<Sum>m<14. sin_coeff m * (1 / 2 :: real) ^ m) = S"
    unfolding S_def by (simp add: eval_nat_numeral lessThan_Suc sin_coeff_Suc cos_coeff_Suc)
  have b: "\<bar>sin (1 / 2 :: real) - S\<bar> \<le> E"
    unfolding s [symmetric] E_def by (rule Maclaurin_sin_bound)
  have e: "E \<le> 1 / 10 ^ 15"
    unfolding E_def by (simp add: eval_nat_numeral)
  have c: "\<bar>S - 479425538604203 / 10 ^ 15\<bar> \<le> 1 / 10 ^ 14"
    unfolding S_def by (simp add: abs_le_iff)
  have "\<bar>sin (1 / 2 :: real) - 479425538604203 / 10 ^ 15\<bar> \<le> E + 1 / 10 ^ 14"
    using b c by linarith
  also have "\<dots> \<le> 1 / 10 ^ 15 + 1 / 10 ^ 14" using e by simp
  also have "\<dots> \<le> (1 / 10 ^ 13 :: real)" by simp
  finally show ?thesis .
qed

lemma finite_result_sin: "\<bar>a\<bar> \<le> 999 \<Longrightarrow> finite_result (a + sin x) = Fin (a + sin x)"
proof (rule finite_result_small)
  assume "\<bar>a\<bar> \<le> 999"
  moreover have "\<bar>sin x\<bar> \<le> 1" by (rule abs_sin_le_one)
  ultimately show "\<bar>a + sin x\<bar> \<le> 1000" by linarith
qed

lemma finite_result_cos: "\<bar>a\<bar> \<le> 999 \<Longrightarrow> finite_result (a + cos x) = Fin (a + cos x)"
proof (rule finite_result_small)
  assume "\<bar>a\<bar> \<le> 999"
  moreover have "\<bar>cos x\<bar> \<le> 1" by (rule abs_cos_le_one)
  ultimately show "\<bar>a + cos x\<bar> \<le> 1000" by linarith
qed

lemma finite_result_cos0: "finite_result (cos x) = Fin (cos x)"
  using finite_result_cos [of 0 x] by simp

lemma script_eq:
  "script = Inr (0, 1, 4,
     [\<lparr>value' = Fin (1 / 2), children = [(Fin (42 / 10), 2), (Fin (cos (1 / 2)), 3)], grad_value = None\<rparr>,
      \<lparr>value' = Fin (42 / 10), children = [(Fin (1 / 2), 2)], grad_value = None\<rparr>,
      \<lparr>value' = Fin (1 / 2 * (42 / 10)), children = [(Fin 1, 4)], grad_value = None\<rparr>,
      \<lparr>value' = Fin (sin (1 / 2)), children = [(Fin 1, 4)], grad_value = None\<rparr>,
      \<lparr>value' = Fin (1 / 2 * (42 / 10) + sin (1 / 2)), children = [], grad_value = Some (Fin 1)\<rparr>])"
  by (simp add: script_def Var_def Var_mul_def sin_Var_def Var_add_def seed_root_def
      append_child_def set_grad_value_def times_pyfloat_def plus_pyfloat_def one_pyfloat_def
      finite_result_sin)

lemma script_grad_x:
  "grad (Suc (Suc (Suc k))) 0
     [\<lparr>value' = Fin (1 / 2), children = [(Fin (42 / 10), 2), (Fin (cos (1 / 2)), 3)], grad_value = None\<rparr>,
      \<lparr>value' = Fin (42 / 10), children = [(Fin (1 / 2), 2)], grad_value = None\<rparr>,
      \<lparr>value' = Fin (1 / 2 * (42 / 10)), children = [(Fin 1, 4)], grad_value = None\<rparr>,
      \<lparr>value' = Fin (sin (1 / 2)), children = [(Fin 1, 4)], grad_value = None\<rparr>,
      \<lparr>value' = Fin (1 / 2 * (42 / 10) + sin (1 / 2)), children = [], grad_value = Some (Fin 1)\<rparr>]
   = Some (Fin (42 / 10 + cos (1 / 2)),
     [\<lparr>value' = Fin (1 / 2), children = [(Fin (42 / 10), 2), (Fin (cos (1 / 2)), 3)], grad_value = Some (Fin (42 / 10 + cos (1 / 2)))\<rparr>,
      \<lparr>value' = Fin (42 / 10), children = [(Fin (1 / 2), 2)], grad_value = None\<rparr>,
      \<lparr>value' = Fin (1 / 2 * (42 / 10)), children = [(Fin 1, 4)], grad_value = Some (Fin 1)\<rparr>,
      \<lparr>value' = Fin (sin (1 / 2)), children = [(Fin 1, 4)], grad_value = Some (Fin 1)\<rparr>,
      \<lparr>value' = Fin (1 / 2 * (42 / 10) + sin (1 / 2)), children = [], grad_value = Some (Fin 1)\<rparr>])"
  by (simp add: set_grad_value_def times_pyfloat_def plus_pyfloat_def zero_pyfloat_def
      finite_result_cos finite_result_cos0)

lemma script_grad_y:
  "grad (Suc (Suc (Suc k))) 1
     [\<lparr>value' = Fin (1 / 2), children = [(Fin (42 / 10), 2), (Fin (cos (1 / 2)), 3)], grad_value = Some (Fin (42 / 10 + cos (1 / 2)))\<rparr>,
      \<lparr>value' = Fin (42 / 10), children = [(Fin (1 / 2), 2)], grad_value = None\<rparr>,
      \<lparr>value' = Fin (1 / 2 * (42 / 10)), children = [(Fin 1, 4)], grad_value = Some (Fin 1)\<rparr>,
      \<lparr>value' = Fin (sin (1 / 2)), children = [(Fin 1, 4)], grad_value = Some (Fin 1)\<rparr>,
      \<lparr>value' = Fin (1 / 2 * (42 / 10) + sin (1 / 2)), children = [], grad_value = Some (Fin 1)\<rparr>]
   = Some (Fin (1 / 2),
     [\<lparr>value' = Fin (1 / 2), children = [(Fin (42 / 10), 2), (Fin (cos (1 / 2)), 3)], grad_value = Some (Fin (42 / 10 + cos (1 / 2)))\<rparr>,
      \<lparr>value' = Fin (42 / 10), children = [(Fin (1 / 2), 2)], grad_value = Some (Fin (1 / 2))\<rparr>,
      \<lparr>value' = Fin (1 / 2 * (42 / 10)), children = [(Fin 1, 4)], grad_value = Some (Fin 1)\<rparr>,
      \<lparr>value' = Fin (sin (1 / 2)), children = [(Fin 1, 4)], grad_value = Some (Fin 1)\<rparr>,
      \<lparr>value' = Fin (1 / 2 * (42 / 10) + sin (1 / 2)), children = [], grad_value = Some (Fin 1)\<rparr>])"
  by (simp add: set_grad_value_def times_pyfloat_def plus_pyfloat_def zero_pyfloat_def
      finite_result_cos finite_result_cos0)

text \<open>
  Claim C3. The script raises no exception, and in its heap \<open>z.value\<close> is within \<open>1e-12\<close> of
  \<open>2.579425538604203\<close>; \<open>x.grad()\<close> returns (with depth 3) a value within \<open>1e-12\<close> of
  \<open>y.value + math.cos(x.value)\<close>; then \<open>y.grad()\<close> returns a value within \<open>1e-12\<close> of
  \<open>x.value\<close>. Finite floats are taken as exact reals here.
\<close>

theorem script_values:
  "case script of
     Inl e \<Rightarrow> False
   | Inr (x, y, z, h) \<Rightarrow>
     within_tol (value' (h ! z)) (Fin (2579425538604203 / 10 ^ 15)) (1 / 10 ^ 12)
   \<and> (\<exists>gx h1. grad (Suc (Suc (Suc k))) x h = Some (gx, h1)
         \<and> (\<exists>c. math_cos (value' (h1 ! x)) = Inr c
               \<and> within_tol gx (value' (h1 ! y) + c) (1 / 10 ^ 12))
         \<and> (\<exists>gy h2. grad (Suc (Suc (Suc k))) y h1 = Some (gy, h2)
               \<and> within_tol gy (value' (h2 ! x)) (1 / 10 ^ 12)))"
proof -
  have z: "\<bar>1 / 2 * (42 / 10) + sin (1 / 2 :: real) - 2579425538604203 / 10 ^ 15\<bar> \<le> 1 / 10 ^ 12"
    using sin_half_close by (simp add: abs_le_iff)
  show ?thesis
    unfolding script_eq sum.case prod.case
  proof (intro conjI exI)
    show "grad (Suc (Suc (Suc k))) 0
     [\<lparr>value' = Fin (1 / 2), children = [(Fin (42 / 10), 2), (Fin (cos (1 / 2)), 3)], grad_value = None\<rparr>,
      \<lparr>value' = Fin (42 / 10), children = [(Fin (1 / 2), 2)], grad_value = None\<rparr>,
      \<lparr>value' = Fin (1 / 2 * (42 / 10)), children = [(Fin 1, 4)], grad_value = None\<rparr>,
      \<lparr>value' = Fin (sin (1 / 2)), children = [(Fin 1, 4)], grad_value = None\<rparr>,
      \<lparr>value' = Fin (1 / 2 * (42 / 10) + sin (1 / 2)), children = [], grad_value = Some (Fin 1)\<rparr>]
   = Some (Fin (42 / 10 + cos (1 / 2)),
     [\<lparr>value' = Fin (1 / 2), children = [(Fin (42 / 10), 2), (Fin (cos (1 / 2)), 3)], grad_value = Some (Fin (42 / 10 + cos (1 / 2)))\<rparr>,
      \<lparr>value' = Fin (42 / 10), children = [(Fin (1 / 2), 2)], grad_value = None\<rparr>,
      \<lparr>value' = Fin (1 / 2 * (42 / 10)), children = [(Fin 1, 4)], grad_value = Some (Fin 1)\<rparr>,
      \<lparr>value' = Fin (sin (1 / 2)), children = [(Fin 1, 4)], grad_value = Some (Fin 1)\<rparr>,
      \<lparr>value' = Fin (1 / 2 * (42 / 10) + sin (1 / 2)), children = [], grad_value = Some (Fin 1)\<rparr>])"
      by (rule script_grad_x)
    show "grad (Suc (Suc (Suc k))) 1
     [\<lparr>value' = Fin (1 / 2), children = [(Fin (42 / 10), 2), (Fin (cos (1 / 2)), 3)], grad_value = Some (Fin (42 / 10 + cos (1 / 2)))\<rparr>,
      \<lparr>value' = Fin (42 / 10), children = [(Fin (1 / 2), 2)], grad_value = None\<rparr>,
      \<lparr>value' = Fin (1 / 2 * (42 / 10)), children = [(Fin 1, 4)], grad_value = Some (Fin 1)\<rparr>,
      \<lparr>value' = Fin (sin (1 / 2)), children = [(Fin 1, 4)], grad_value = Some (Fin 1)\<rparr>,
      \<lparr>value' = Fin (1 / 2 * (42 / 10) + sin (1 / 2)), children = [], grad_value = Some (Fin 1)\<rparr>]
   = Some (Fin (1 / 2),
     [\<lparr>value' = Fin (1 / 2), children = [(Fin (42 / 10), 2), (Fin (cos (1 / 2)), 3)], grad_value = Some (Fin (42 / 10 + cos (1 / 2)))\<rparr>,
      \<lparr>value' = Fin (42 / 10), children = [(Fin (1 / 2), 2)], grad_value = Some (Fin (1 / 2))\<rparr>,
      \<lparr>value' = Fin (1 / 2 * (42 / 10)), children = [(Fin 1, 4)], grad_value = Some (Fin 1)\<rparr>,
      \<lparr>value' = Fin (sin (1 / 2)), children = [(Fin 1, 4)], grad_value = Some (Fin 1)\<rparr>,
      \<lparr>value' = Fin (1 / 2 * (42 / 10) + sin (1 / 2)), children = [], grad_value = Some (Fin 1)\<rparr>])"
      by (rule script_grad_y)
    show "math_cos (value'
     ([\<lparr>value' = Fin (1 / 2), children = [(Fin (42 / 10), 2), (Fin (cos (1 / 2)), 3)], grad_value = Some (Fin (42 / 10 + cos (1 / 2)))\<rparr>,
      \<lparr>value' = Fin (42 / 10), children = [(Fin (1 / 2), 2)], grad_value = None\<rparr>,
      \<lparr>value' = Fin (1 / 2 * (42 / 10)), children = [(Fin 1, 4)], grad_value = Some (Fin 1)\<rparr>,
      \<lparr>value' = Fin (sin (1 / 2)), children = [(Fin 1, 4)], grad_value = Some (Fin 1)\<rparr>,
      \<lparr>value' = Fin (1 / 2 * (42 / 10) + sin (1 / 2)), children = [], grad_value = Some (Fin 1)\<rparr>] ! 0)) = Inr (Fin (cos (1 / 2)))"
      by simp
    show "within_tol (Fin (42 / 10 + cos (1 / 2)))
     (value' ([\<lparr>value' = Fin (1 / 2), children = [(Fin (42 / 10), 2), (Fin (cos (1 / 2)), 3)], grad_value = Some (Fin (42 / 10 + cos (1 / 2)))\<rparr>,
      \<lparr>value' = Fin (42 / 10), children = [(Fin (1 / 2), 2)], grad_value = None\<rparr>,
      \<lparr>value' = Fin (1 / 2 * (42 / 10)), children = [(Fin 1, 4)], grad_value = Some (Fin 1)\<rparr>,
      \<lparr>value' = Fin (sin (1 / 2)), children = [(Fin 1, 4)], grad_value = Some (Fin 1)\<rparr>,
      \<lparr>value' = Fin (1 / 2 * (42 / 10) + sin (1 / 2)), children = [], grad_value = Some (Fin 1)\<rparr>] ! 1) + Fin (cos (1 / 2))) (1 / 10 ^ 12)"
      by (simp add: plus_pyfloat_def finite_result_cos)
    show "within_tol (value'
     ([\<lparr>value' = Fin (1 / 2), children = [(Fin (42 / 10), 2), (Fin (cos (1 / 2)), 3)], grad_value = None\<rparr>,
      \<lparr>value' = Fin (42 / 10), children = [(Fin (1 / 2), 2)], grad_value = None\<rparr>,
      \<lparr>value' = Fin (1 / 2 * (42 / 10)), children = [(Fin 1, 4)], grad_value = None\<rparr>,
      \<lparr>value' = Fin (sin (1 / 2)), children = [(Fin 1, 4)], grad_value = None\<rparr>,
      \<lparr>value' = Fin (1 / 2 * (42 / 10) + sin (1 / 2)), children = [], grad_value = Some (Fin 1)\<rparr>] ! 4)) (Fin (2579425538604203 / 10 ^ 15)) (1 / 10 ^ 12)"
      using z by simp
    show "within_tol (Fin (1 / 2)) (value'
     ([\<lparr>value' = Fin (1 / 2), children = [(Fin (42 / 10), 2), (Fin (cos (1 / 2)), 3)], grad_value = Some (Fin (42 / 10 + cos (1 / 2)))\<rparr>,
      \<lparr>value' = Fin (42 / 10), children = [(Fin (1 / 2), 2)], grad_value = Some (Fin (1 / 2))\<rparr>,
      \<lparr>value' = Fin (1 / 2 * (42 / 10)), children = [(Fin 1, 4)], grad_value = Some (Fin 1)\<rparr>,
      \<lparr>value' = Fin (sin (1 / 2)), children = [(Fin 1, 4)], grad_value = Some (Fin 1)\<rparr>,
      \<lparr>value' = Fin (1 / 2 * (42 / 10) + sin (1 / 2)), children = [], grad_value = Some (Fin 1)\<rparr>] ! 0)) (1 / 10 ^ 12)"
      by simp
  qed
qed

end
